theory Spec2Isabelle
  imports Main "HOL-Library.Word" "HOL-Library.Sublist"
begin

unbundle bit_operations_syntax

section \<open>Constants of the NFC layer\<close>

text \<open>
  The page geometry of a MIFARE Ultralight tag, as the header of the \<open>nfc\<close> component
  declares it: a page is four bytes, one READ command returns four pages, and user data
  starts at page 4. Functions keep their names from the sources, less the underscore
  at the end of the names of member functions.
\<close>

type_synonym byte = "8 word"

definition MIFARE_ULTRALIGHT_PAGE_SIZE :: nat where
  "MIFARE_ULTRALIGHT_PAGE_SIZE = 4"

definition MIFARE_ULTRALIGHT_READ_SIZE :: nat where
  "MIFARE_ULTRALIGHT_READ_SIZE = 4"

definition MIFARE_ULTRALIGHT_DATA_START_PAGE :: nat where
  "MIFARE_ULTRALIGHT_DATA_START_PAGE = 4"

section \<open>Reads of a byte vector\<close>

text \<open>
  \<open>operator[]\<close> of \<open>std::vector\<close> does not check its index. A read past the end is
  undefined behaviour; the model stops there and reports the offending index, so that
  "every access is in bounds" is the statement that a run ends in \<open>Done\<close>.
\<close>

datatype 'a checked = Undefined_Read nat | Done 'a

definition at :: "'a list \<Rightarrow> nat \<Rightarrow> ('a \<Rightarrow> 'b checked) \<Rightarrow> 'b checked" where
  "at v i k = (if i < length v then k (v ! i) else Undefined_Read i)"

section \<open>Locating the NDEF TLV\<close>

text \<open>
  \<open>is_mifare_ultralight_formatted_\<close>: the size test comes first and \<open>&&\<close> short-circuits,
  so the four bytes of page 4 are only read from a vector of more than seven bytes.
\<close>

definition is_mifare_ultralight_formatted :: "byte list \<Rightarrow> bool checked" where
  "is_mifare_ultralight_formatted page_3_to_6 =
     (let p4_offset = MIFARE_ULTRALIGHT_PAGE_SIZE in
      if \<not> (length page_3_to_6 > p4_offset + 3) then Done False
      else at page_3_to_6 (p4_offset + 0) (\<lambda>b0.
        if b0 \<noteq> 0xFF then Done True
        else at page_3_to_6 (p4_offset + 1) (\<lambda>b1.
          if b1 \<noteq> 0xFF then Done True
          else at page_3_to_6 (p4_offset + 2) (\<lambda>b2.
            if b2 \<noteq> 0xFF then Done True
            else at page_3_to_6 (p4_offset + 3) (\<lambda>b3. Done (b3 \<noteq> 0xFF))))))"

text \<open>
  The debug log lines of \<open>find_mifare_ultralight_ndef_\<close> read their arguments: page 4
  unconditionally, pages 5 and 6 behind a size test.
\<close>

definition log_page :: "byte list \<Rightarrow> nat \<Rightarrow> 'b checked \<Rightarrow> 'b checked" where
  "log_page v i rest =
     at v (i + 0) (\<lambda>_. at v (i + 1) (\<lambda>_. at v (i + 2) (\<lambda>_. at v (i + 3) (\<lambda>_. rest))))"

text \<open>
  \<open>find_mifare_ultralight_ndef_\<close> of the component file. The result \<open>Done None\<close> is
  \<open>return false\<close>; \<open>Done (Some (message_length, message_start_index))\<close> is \<open>return true\<close>
  with the two output parameters.
\<close>

definition find_mifare_ultralight_ndef :: "byte list \<Rightarrow> (16 word \<times> 8 word) option checked" where
  "find_mifare_ultralight_ndef page_3_to_6 =
     (let p4_offset = MIFARE_ULTRALIGHT_PAGE_SIZE in
      log_page page_3_to_6 (p4_offset + 0)
      ((if length page_3_to_6 \<ge> p4_offset + 8 then log_page page_3_to_6 (p4_offset + 4) else id)
      ((if length page_3_to_6 \<ge> p4_offset + 12 then log_page page_3_to_6 (p4_offset + 8) else id)
      (if \<not> (length page_3_to_6 > p4_offset + 5) then Done None
       else at page_3_to_6 (p4_offset + 0) (\<lambda>tag0.
         if tag0 = 0x03 then
           at page_3_to_6 (p4_offset + 1) (\<lambda>len1.
             if len1 = 0xFF then
               if length page_3_to_6 < p4_offset + 4 then Done None
               else at page_3_to_6 (p4_offset + 2) (\<lambda>potential_high_byte.
                    at page_3_to_6 (p4_offset + 3) (\<lambda>potential_low_byte.
                      if potential_high_byte = 0x03 then
                        (let second_tlv_length = potential_low_byte in
                         if second_tlv_length > 0 \<and> second_tlv_length \<le> 100
                         then Done (Some (ucast second_tlv_length, 4))
                         else Done (Some (255, 2)))
                      else
                        (let potential_length =
                               (ucast potential_high_byte * 256 + ucast potential_low_byte :: 16 word) in
                         if potential_length > 254 \<and> potential_length \<le> 924
                         then Done (Some (potential_length, 4))
                         else Done (Some (255, 2)))))
             else at page_3_to_6 (p4_offset + 1) (\<lambda>len. Done (Some (ucast len, 2))))
         else at page_3_to_6 (p4_offset + 5) (\<lambda>tag5.
           if tag5 = 0x03 then
             if length page_3_to_6 < p4_offset + 7 then Done None
             else at page_3_to_6 (p4_offset + 6) (\<lambda>len. Done (Some (ucast len, 7)))
           else Done None))))))"

text \<open>
  The copy \<open>part_002\<close> holds an earlier form of the locator: it has no rule for a second
  TLV after \<open>03 FF\<close>, and reads only page 4 for its log line.
\<close>

definition find_mifare_ultralight_ndef_part_002 ::
  "byte list \<Rightarrow> (16 word \<times> 8 word) option checked" where
  "find_mifare_ultralight_ndef_part_002 page_3_to_6 =
     (let p4_offset = MIFARE_ULTRALIGHT_PAGE_SIZE in
      log_page page_3_to_6 (p4_offset + 0)
      (if \<not> (length page_3_to_6 > p4_offset + 5) then Done None
       else at page_3_to_6 (p4_offset + 0) (\<lambda>tag0.
         if tag0 = 0x03 then
           at page_3_to_6 (p4_offset + 1) (\<lambda>len1.
             if len1 = 0xFF then
               if length page_3_to_6 < p4_offset + 4 then Done None
               else at page_3_to_6 (p4_offset + 2) (\<lambda>potential_high_byte.
                    at page_3_to_6 (p4_offset + 3) (\<lambda>potential_low_byte.
                      (let potential_length =
                             (ucast potential_high_byte * 256 + ucast potential_low_byte :: 16 word) in
                       if potential_length > 254 \<and> potential_length \<le> 924
                       then Done (Some (potential_length, 4))
                       else at page_3_to_6 (p4_offset + 1) (\<lambda>len. Done (Some (ucast len, 2))))))
             else at page_3_to_6 (p4_offset + 1) (\<lambda>len. Done (Some (ucast len, 2))))
         else at page_3_to_6 (p4_offset + 5) (\<lambda>tag5.
           if tag5 = 0x03 then
             if length page_3_to_6 < p4_offset + 7 then Done None
             else at page_3_to_6 (p4_offset + 6) (\<lambda>len. Done (Some (ucast len, 7)))
           else Done None))))"

section \<open>Reading pages through the transport\<close>

text \<open>
  The transport (\<open>write_command_\<close> followed by \<open>read_response\<close>) is an external
  collaborator with a state of its own. One exchange asks for the four pages that
  start at a page number; it ends with a failed command write, a failed response read,
  or a response: a status byte followed by the bytes read.
\<close>

datatype exchange = Write_Failed | Read_Failed | Response byte "byte list"


type_synonym 's transport = "byte \<Rightarrow> 's \<Rightarrow> exchange \<times> 's"

text \<open>
  The tail of one loop iteration of \<open>read_mifare_ultralight_bytes_\<close>:
  \<open>pages_in_end_itr\<close> is an offset into the response (status byte included), cut short
  in the last iteration when \<open>num_bytes\<close> is not a multiple of 16; the bytes after the
  status byte up to that offset are appended to \<open>data\<close>.
\<close>

definition append_pages :: "nat \<Rightarrow> nat \<Rightarrow> byte list \<Rightarrow> byte list \<Rightarrow> byte list" where
  "append_pages bytes_offset num_bytes payload data =
     (let response_size = int (1 + length payload);
          pages_in_end = (if bytes_offset \<le> num_bytes then response_size
                          else response_size - (int bytes_offset - int num_bytes))
      in if 0 < pages_in_end \<and> pages_in_end \<le> response_size
         then data @ take (nat (pages_in_end - 1)) payload
         else data)"

text \<open>
  The loop counter \<open>i\<close> is a \<open>uint8_t\<close>: for \<open>num_bytes\<close> above 4080 it wraps to 0
  before the loop test can fail, and the loop only ends on a failed exchange. The
  loop is therefore a partial function; \<open>None\<close> stands for a call that never returns.
  A returning call yields the boolean result, the vector \<open>data\<close> as the call leaves it,
  and the state of the transport.
\<close>

partial_function (option) read_pages_loop ::
  "'s transport \<Rightarrow> byte \<Rightarrow> 16 word \<Rightarrow> byte \<Rightarrow> byte list \<Rightarrow> 's \<Rightarrow> (bool \<times> byte list \<times> 's) option"
where
  "read_pages_loop xchg start_page num_bytes i data st =
     (let read_increment = MIFARE_ULTRALIGHT_READ_SIZE * MIFARE_ULTRALIGHT_PAGE_SIZE in
      if unat i * read_increment < unat num_bytes then
        (case xchg (i * of_nat MIFARE_ULTRALIGHT_READ_SIZE + start_page) st of
           (Write_Failed, st') \<Rightarrow> Some (False, data, st')
         | (Read_Failed, st') \<Rightarrow> Some (False, data, st')
         | (Response status payload, st') \<Rightarrow>
             if status \<noteq> 0x00 then Some (False, data, st')
             else read_pages_loop xchg start_page num_bytes (i + 1)
                    (append_pages ((unat i + 1) * read_increment) (unat num_bytes) payload data) st')
      else Some (True, data, st))"

declare read_pages_loop.simps [code]

definition read_mifare_ultralight_bytes ::
  "'s transport \<Rightarrow> byte \<Rightarrow> 16 word \<Rightarrow> byte list \<Rightarrow> 's \<Rightarrow> (bool \<times> byte list \<times> 's) option" where
  "read_mifare_ultralight_bytes xchg start_page num_bytes data st =
     read_pages_loop xchg start_page num_bytes 0 data st"


text \<open>
  A transport for concrete runs: it replays a list of outcomes, one per exchange, and
  fails every exchange after the last; its state counts the exchanges made.
\<close>

definition scripted :: "exchange list \<Rightarrow> nat transport" where
  "scripted script page n = (if n < length script then script ! n else Read_Failed, n + 1)"

text \<open>The response of a read over four pages that hold zeros.\<close>

definition blank_pages :: exchange where
  "blank_pages = Response 0x00 [0, 0, 0, 0, 0, 0, 0, 0, 0, 0, 0, 0, 0, 0, 0, 0]"

section \<open>Assembling the NDEF message\<close>

text \<open>
  \<open>size_t\<close> is 32 bits wide on the target; a difference of sizes wraps around.
\<close>

definition size_sub :: "nat \<Rightarrow> nat \<Rightarrow> nat" where
  "size_sub a b = nat ((int a - int b) mod 2 ^ 32)"

text \<open>
  The tag handed back to the caller: \<open>ndef_data = None\<close> is the two-argument
  constructor (a tag without an NDEF message).
\<close>

record nfc_tag =
  uid :: "byte list"
  tag_type :: string
  ndef_data :: "byte list option"

definition NFC_FORUM_TYPE_2 :: string where
  "NFC_FORUM_TYPE_2 = ''NFC Forum Type 2''"

definition tag_without_ndef :: "byte list \<Rightarrow> nfc_tag" where
  "tag_without_ndef u = \<lparr>uid = u, tag_type = NFC_FORUM_TYPE_2, ndef_data = None\<rparr>"

definition tag_with_ndef :: "byte list \<Rightarrow> byte list \<Rightarrow> nfc_tag" where
  "tag_with_ndef u d = \<lparr>uid = u, tag_type = NFC_FORUM_TYPE_2, ndef_data = Some d\<rparr>"

text \<open>
  \<open>read_length\<close>: the sum and the difference are computed in \<open>int\<close>, and the result
  is stored into a \<open>const uint8_t\<close>, which keeps its low eight bits.
\<close>

definition read_length :: "16 word \<Rightarrow> 8 word \<Rightarrow> 8 word" where
  "read_length message_length message_start_index =
     (if uint message_length + uint message_start_index > 12
      then word_of_int (uint message_length + uint message_start_index - 12)
      else 0)"

text \<open>
  The number of bytes asked for after the first sixteen: the larger of \<open>read_length\<close>
  and a floor, as a \<open>uint16_t\<close>. The floor is 200 in the component file
  (\<open>extra_read_length\<close>) and 300 in the copy \<open>part_001\<close> (\<open>target_read_length\<close>). The copy
  casts \<open>read_length\<close> to \<open>uint16_t\<close> before \<open>std::max\<close>; the component file passes the
  \<open>uint8_t\<close> as it is, and is read here as comparing the same two values.
\<close>

definition read_target :: "16 word \<Rightarrow> 16 word \<Rightarrow> 8 word \<Rightarrow> 16 word" where
  "read_target floor message_length message_start_index =
     max (ucast (read_length message_length message_start_index)) floor"

definition extra_read_length :: "16 word \<Rightarrow> 8 word \<Rightarrow> 16 word" where
  "extra_read_length = read_target 200"

definition target_read_length :: "16 word \<Rightarrow> 8 word \<Rightarrow> 16 word" where
  "target_read_length = read_target 300"

text \<open>
  What the claim about the read target takes the TLV to ask for: the bytes of the
  message that lie beyond the twelve bytes of pages 4 to 6 already read.
\<close>

definition tlv_remaining_length :: "16 word \<Rightarrow> 8 word \<Rightarrow> nat" where
  "tlv_remaining_length message_length message_start_index =
     unat message_length + unat message_start_index - 12"

text \<open>
  The trim step: \<open>None\<close> is a return of a tag without NDEF data; otherwise the vector
  cut down to the message and the message length, narrowed where the vector is short.
\<close>

definition trim_to_message :: "byte list \<Rightarrow> 16 word \<Rightarrow> 8 word \<Rightarrow> (byte list \<times> 16 word) option" where
  "trim_to_message data message_length message_start_index =
     (let trim_offset = unat message_start_index + MIFARE_ULTRALIGHT_PAGE_SIZE in
      if length data < trim_offset then None
      else
        (case (if length data < trim_offset + unat message_length then
                 (if length data > trim_offset
                  then Some (of_nat (length data - trim_offset) :: 16 word)
                  else None)
               else Some message_length) of
           None \<Rightarrow> None
         | Some message_length' \<Rightarrow>
             (let erased = drop trim_offset data;
                  resized = (if length erased > unat message_length'
                             then take (unat message_length') erased else erased)
              in Some (resized, message_length'))))"

text \<open>
  The scan for inner TLVs \<open>03 len\<close>. The loop bound is \<open>data.size() - 1\<close> in
  \<open>size_t\<close>; the read of \<open>data[i]\<close> is only guarded by that bound.
\<close>

definition analyse_record :: "byte list \<Rightarrow> nat \<Rightarrow> nat" where
  "analyse_record inner_data expected_total_size =
     (if length inner_data \<ge> 4 then
        (let flags = inner_data ! 0; type_length = inner_data ! 1 in
         if flags AND 0x10 \<noteq> 0 then
           (if length inner_data \<ge> 3
            then (let payload_length = inner_data ! 2 in 3 + unat type_length + unat payload_length)
            else expected_total_size)
         else expected_total_size)
      else expected_total_size)"

function inner_tlv_loop ::
  "byte list \<Rightarrow> nat \<Rightarrow> byte list \<times> bool \<times> nat \<Rightarrow> (byte list \<times> bool \<times> nat) checked" where
  "inner_tlv_loop data i (combined_inner_data, found_inner_tlv, expected_total_size) =
     (if i < size_sub (length data) 1 then
        at data i (\<lambda>tag.
          if tag = 0x03 \<and> i + 1 < length data then
            at data (i + 1) (\<lambda>inner_length.
              if inner_length > 0 \<and> inner_length < 255 \<and> i + 2 + unat inner_length \<le> length data
              then
                (let inner_data = take (unat inner_length) (drop (i + 2) data);
                     expected' = (if \<not> found_inner_tlv
                                  then analyse_record inner_data expected_total_size
                                  else expected_total_size);
                     combined' = (if \<not> found_inner_tlv then inner_data
                                  else combined_inner_data @ inner_data)
                 in inner_tlv_loop data (i + (unat inner_length + 1) + 1) (combined', True, expected'))
              else inner_tlv_loop data (i + 1)
                     (combined_inner_data, found_inner_tlv, expected_total_size))
          else inner_tlv_loop data (i + 1)
                 (combined_inner_data, found_inner_tlv, expected_total_size))
      else Done (combined_inner_data, found_inner_tlv, expected_total_size))"
  by pat_completeness auto
termination
  by (relation "measure (\<lambda>(data, i, acc). 2 ^ 32 - i)") (auto simp: size_sub_def)

definition use_inner_tlv :: "byte list \<Rightarrow> byte list \<times> bool \<times> nat \<Rightarrow> byte list" where
  "use_inner_tlv data scan =
     (case scan of (combined_inner_data, found_inner_tlv, expected_total_size) \<Rightarrow>
        if found_inner_tlv then
          (if expected_total_size > 0 \<and> length combined_inner_data \<ge> expected_total_size
           then take expected_total_size combined_inner_data
           else combined_inner_data)
        else data)"

definition inner_tlv_scan :: "byte list \<Rightarrow> byte list checked" where
  "inner_tlv_scan data =
     (case inner_tlv_loop data 0 ([], False, 0) of
        Undefined_Read i \<Rightarrow> Undefined_Read i
      | Done scan \<Rightarrow> Done (use_inner_tlv data scan))"

text \<open>
  \<open>read_mifare_ultralight_tag_\<close> from the point where the additional read has
  returned: the NDEF data of the tag it returns, \<open>None\<close> for a tag without.
\<close>

definition assemble_message :: "byte list \<Rightarrow> 16 word \<Rightarrow> 8 word \<Rightarrow> byte list option checked" where
  "assemble_message data message_length message_start_index =
     (case trim_to_message data message_length message_start_index of
        None \<Rightarrow> Done None
      | Some (trimmed, message_length') \<Rightarrow>
          (case inner_tlv_scan trimmed of
             Undefined_Read i \<Rightarrow> Undefined_Read i
           | Done payload \<Rightarrow> Done (Some payload)))"

text \<open>
  \<open>read_mifare_ultralight_tag_\<close> of the component file. The outer \<open>option\<close> is that of
  the page reads (a call that never returns).
\<close>

definition read_mifare_ultralight_tag ::
  "'s transport \<Rightarrow> byte list \<Rightarrow> 's \<Rightarrow> (nfc_tag checked \<times> 's) option" where
  "read_mifare_ultralight_tag xchg u st =
     (case read_mifare_ultralight_bytes xchg 3
             (of_nat (MIFARE_ULTRALIGHT_PAGE_SIZE * MIFARE_ULTRALIGHT_READ_SIZE)) [] st of
        None \<Rightarrow> None
      | Some (ok, data, st1) \<Rightarrow>
          if \<not> ok then Some (Done (tag_without_ndef u), st1)
          else
            (case is_mifare_ultralight_formatted data of
               Undefined_Read i \<Rightarrow> Some (Undefined_Read i, st1)
             | Done formatted \<Rightarrow>
                 if \<not> formatted then Some (Done (tag_without_ndef u), st1)
                 else
                   (case find_mifare_ultralight_ndef data of
                      Undefined_Read i \<Rightarrow> Some (Undefined_Read i, st1)
                    | Done None \<Rightarrow> Some (Done (tag_without_ndef u), st1)
                    | Done (Some (message_length, message_start_index)) \<Rightarrow>
                        if message_length = 0 then Some (Done (tag_without_ndef u), st1)
                        else
                          (case (if extra_read_length message_length message_start_index > 0
                                 then read_mifare_ultralight_bytes xchg
                                        (of_nat (MIFARE_ULTRALIGHT_DATA_START_PAGE + 3))
                                        (extra_read_length message_length message_start_index)
                                        data st1
                                 else Some (True, data, st1)) of
                             None \<Rightarrow> None
                           | Some (ok2, data2, st2) \<Rightarrow>
                               if \<not> ok2 then Some (Done (tag_without_ndef u), st2)
                               else
                                 (case assemble_message data2 message_length message_start_index of
                                    Undefined_Read i \<Rightarrow> Some (Undefined_Read i, st2)
                                  | Done None \<Rightarrow> Some (Done (tag_without_ndef u), st2)
                                  | Done (Some payload) \<Rightarrow>
                                      Some (Done (tag_with_ndef u payload), st2))))))"

section \<open>The direct record scan of the copy \<open>part_001\<close>\<close>

text \<open>
  In \<open>part_001\<close> the trimmed payload is first scanned for a byte that looks like the
  flags of a short NDEF record. The loop bound is \<open>data.size() - 3\<close> in \<open>size_t\<close>.
  The scan collects the offsets of the candidates and the size of the first one.
\<close>

function direct_record_loop ::
  "byte list \<Rightarrow> nat \<Rightarrow> nat list \<times> nat \<Rightarrow> (nat list \<times> nat) checked" where
  "direct_record_loop data i (ndef_record_starts, expected_total_size) =
     (if i < size_sub (length data) 3 then
        at data i (\<lambda>potential_flags.
          if (potential_flags AND 0x07) \<le> 0x06 \<and> (potential_flags AND 0x10) \<noteq> 0
               \<and> i + 3 < length data
          then
            at data (i + 1) (\<lambda>type_length.
            at data (i + 2) (\<lambda>payload_length.
              if type_length \<le> 8 \<and> payload_length > 0 \<and> payload_length < 200 then
                (let expected_size = 3 + unat type_length + unat payload_length in
                 direct_record_loop data (i + 1)
                   (ndef_record_starts @ [i],
                    if expected_total_size = 0 then expected_size else expected_total_size))
              else direct_record_loop data (i + 1) (ndef_record_starts, expected_total_size)))
          else direct_record_loop data (i + 1) (ndef_record_starts, expected_total_size))
      else Done (ndef_record_starts, expected_total_size))"
  by pat_completeness auto
termination
  by (relation "measure (\<lambda>(data, i, acc). 2 ^ 32 - i)") (auto simp: size_sub_def)

definition direct_record_scan :: "byte list \<Rightarrow> (nat list \<times> nat) checked" where
  "direct_record_scan data = direct_record_loop data 0 ([], 0)"

section \<open>Decoding the report\<close>

text \<open>
  The \<open>on_tag\<close> lambda of the device configuration turns the text of the first NDEF
  record into a JSON string and a numeric volume. A \<open>std::string\<close> is a list of bytes.
  The model starts where the lambda holds the payload of that record in \<open>input\<close>, and
  takes the tag type string \<open>nfckey\<close> as given.
\<close>

definition crlf :: string where
  "crlf = [CHR 0x0D, CHR 0x0A]"

definition unit_suffix :: string where
  "unit_suffix = [CHR '' '', CHR ''m'', CHR 0xC2, CHR 0xB3]"

text \<open>\<open>std::string::find\<close>: the offset of the first occurrence, \<open>None\<close> for \<open>npos\<close>.\<close>

fun find_str :: "string \<Rightarrow> string \<Rightarrow> nat option" where
  "find_str pat [] = (if pat = [] then Some 0 else None)"
| "find_str pat (c # cs) =
     (if prefix pat (c # cs) then Some 0 else map_option Suc (find_str pat cs))"

text \<open>
  The two \<open>erase\<close> calls that strip blanks and tabs: \<open>find_first_not_of\<close> and
  \<open>find_last_not_of\<close> return \<open>npos\<close> on a string of blanks only, and then both calls
  erase the whole string.
\<close>

definition blank :: "char \<Rightarrow> bool" where
  "blank c = (c = CHR '' '' \<or> c = CHR 0x09)"

definition trim :: "string \<Rightarrow> string" where
  "trim s = rev (dropWhile blank (rev (dropWhile blank s)))"

record lambda_state =
  gjson :: string
  ajson :: string
  hjson :: string
  isn :: string
  vol_value :: string
  is_first_line :: bool

definition initial_state :: lambda_state where
  \<open>initial_state =
     \<lparr>gjson = '''', ajson = '''', hjson = ''"history": ['', isn = '''', vol_value = '''',
      is_first_line = True\<rparr>\<close>

definition field_key :: "string \<Rightarrow> bool" where
  "field_key key =
     (key = ''Vol'' \<or> key = ''Temp'' \<or> key = ''FVol'' \<or> key = ''RVol'' \<or> key = ''KVol''
      \<or> key = ''KDate'' \<or> key = ''Time'')"

text \<open>The body of the \<open>while\<close> loop for one line.\<close>

definition process_line :: "string \<Rightarrow> string \<Rightarrow> lambda_state \<Rightarrow> lambda_state" where
  \<open>process_line nfckey line st =
     (if is_first_line st then
        st\<lparr>is_first_line := False, gjson := gjson st @ ''"'' @ ''Name'' @ ''": "'' @ line @ ''",''\<rparr>
      else
        (case find_str '':'' line of
           None \<Rightarrow> st
         | Some delimiter \<Rightarrow>
             (let key = trim (take delimiter line);
                  value = trim (drop (delimiter + 1) line)
              in if length key = 10 \<and> key ! 4 = CHR ''-'' \<and> key ! 7 = CHR ''-'' then
                   st\<lparr>hjson := hjson st @ ''{"date": "'' @ key @ ''", "volume": "'' @ value @ ''"},''\<rparr>
                 else if field_key key then
                   st\<lparr>ajson := ajson st @ ''"'' @ key @ ''": "'' @ value @ ''",'',
                      vol_value := (if key = ''Vol'' then value else vol_value st)\<rparr>
                 else if key = ''S/N'' then
                   st\<lparr>gjson := gjson st @ ''"SN": "'' @ value @ ''",''
                                 @ ''"NFC_Id": "'' @ value @ ''",''
                                 @ ''"NFC_Typ": "'' @ nfckey @ ''",'',
                      isn := value\<rparr>
                 else if key = ''Battery'' then
                   st\<lparr>gjson := gjson st @ ''"Battery": "'' @ value @ ''",''\<rparr>
                 else st)))\<close>

text \<open>
  The \<open>while\<close> loop: each round cuts the text before the first CRLF off the input.
  What follows the last CRLF is not looked at.
\<close>

function decode_lines :: "string \<Rightarrow> string \<Rightarrow> lambda_state \<Rightarrow> lambda_state" where
  "decode_lines nfckey input st =
     (case find_str crlf input of
        None \<Rightarrow> st
      | Some pos \<Rightarrow>
          decode_lines nfckey (drop (pos + 2) input) (process_line nfckey (take pos input) st))"
  by pat_completeness auto
termination
proof (relation "measure (\<lambda>(nfckey, input, st). length input)")
  show "wf (measure (\<lambda>(nfckey, input, st). length input))" by simp
next
  fix nfckey input :: string and st :: lambda_state and pos
  assume found: "find_str crlf input = Some pos"
  have bound: "find_str pat s = Some n \<Longrightarrow> n + length pat \<le> length s" for pat s n
  proof (induction s arbitrary: n)
    case Nil
    then show ?case by (simp split: if_splits)
  next
    case (Cons c cs)
    then show ?case by (auto dest: prefix_length_le split: if_splits)
  qed
  from bound [OF found] have "pos + 2 \<le> length input" by (simp add: crlf_def)
  then show "((nfckey, drop (pos + 2) input, process_line nfckey (take pos input) st),
              (nfckey, input, st)) \<in> measure (\<lambda>(nfckey, input, st). length input)"
    by simp
qed

declare decode_lines.simps [simp del]

text \<open>The input with everything from the first \<open>CRC\<close> on cut off.\<close>

definition strip_crc :: "string \<Rightarrow> string" where
  "strip_crc input = (case find_str ''CRC'' input of Some crc_pos \<Rightarrow> take crc_pos input | None \<Rightarrow> input)"

text \<open>The JSON string: the trailing comma of \<open>hjson\<close> is popped before the brackets are closed.\<close>

definition close_json :: "lambda_state \<Rightarrow> string" where
  "close_json st =
     (let hjson' = (if last (hjson st) = CHR '','' then butlast (hjson st) else hjson st)
      in ''{'' @ gjson st @ ajson st @ hjson' @ '']}'')"

definition to_lower :: "char \<Rightarrow> char" where
  "to_lower c =
     (if (of_char (CHR ''A'') :: nat) \<le> of_char c \<and> (of_char c :: nat) \<le> of_char (CHR ''Z'')
      then char_of ((of_char c :: nat) + (of_char (CHR ''a'') - of_char (CHR ''A'')))
      else c)"

text \<open>
  The string handed to \<open>strtof\<close>: the value of \<open>Vol\<close> up to the unit, if the unit is
  there.
\<close>

definition vol_numeric :: "string \<Rightarrow> string" where
  "vol_numeric vol =
     (case find_str unit_suffix vol of Some unit_pos \<Rightarrow> take unit_pos vol | None \<Rightarrow> vol)"

text \<open>
  \<open>strtof\<close> belongs to the C library. It is a parameter of the model: a function from
  the string to the value read and the number of characters consumed, so that
  \<open>endptr\<close> is the start of the string plus that number. The test after the call
  accepts the value if something was consumed and \<open>endptr\<close> points at the terminating
  NUL of \<open>c_str()\<close>.
\<close>

definition c_str :: "string \<Rightarrow> string" where
  "c_str s = s @ [CHR 0x00]"

definition conversion_ok :: "(string \<Rightarrow> 'v \<times> nat) \<Rightarrow> string \<Rightarrow> bool" where
  "conversion_ok strtof s = (snd (strtof s) \<noteq> 0 \<and> c_str s ! snd (strtof s) = CHR 0x00)"

text \<open>
  What one run of the lambda leaves behind: the state published to the text sensor, the
  state published to the volume sensor (\<open>None\<close>: nothing published), and the serial
  number as read (\<open>iconv\<close>) and in lower case (\<open>isn\<close>, which is logged).
\<close>

record 'v publication =
  water_meter_json :: "string option"
  water_volume :: "'v option"
  iconv :: string
  isn_lower :: string

definition on_tag :: "(string \<Rightarrow> 'v \<times> nat) \<Rightarrow> string \<Rightarrow> string \<Rightarrow> 'v publication" where
  "on_tag strtof nfckey input =
     (if input \<noteq> '''' then
        (let st = decode_lines nfckey (strip_crc input) initial_state in
         \<lparr>water_meter_json = Some (close_json st),
          water_volume =
            (if vol_value st \<noteq> '''' \<and> conversion_ok strtof (vol_numeric (vol_value st))
             then Some (fst (strtof (vol_numeric (vol_value st)))) else None),
          iconv = isn st,
          isn_lower = map to_lower (isn st)\<rparr>)
      else \<lparr>water_meter_json = None, water_volume = None, iconv = '''', isn_lower = ''''\<rparr>)"

text \<open>
  A stand-in for \<open>strtof\<close> on plain decimal numbers (digits, optionally a point and
  more digits); anything else is not consumed. The value is kept exact, as the digits
  read and the number of them after the point: \<open>Decimal 123456 3\<close> is 123.456. It
  serves the concrete runs below.
\<close>

datatype decimal = Decimal nat nat

definition is_digit :: "char \<Rightarrow> bool" where
  "is_digit c =
     ((of_char (CHR ''0'') :: nat) \<le> of_char c \<and> (of_char c :: nat) \<le> of_char (CHR ''9''))"

fun digits_value :: "nat \<Rightarrow> string \<Rightarrow> nat" where
  "digits_value acc [] = acc"
| "digits_value acc (c # cs) = digits_value (10 * acc + (of_char c - of_char (CHR ''0''))) cs"

definition read_decimal :: "string \<Rightarrow> decimal \<times> nat" where
  "read_decimal s =
     (let whole = takeWhile is_digit s; rest = dropWhile is_digit s in
      if whole = [] then (Decimal 0 0, 0)
      else (case rest of
              c # after \<Rightarrow>
                if c = CHR ''.'' then
                  (let fraction = takeWhile is_digit after in
                   (Decimal (digits_value 0 (whole @ fraction)) (length fraction),
                    length whole + 1 + length fraction))
                else (Decimal (digits_value 0 whole) 0, length whole)
            | [] \<Rightarrow> (Decimal (digits_value 0 whole) 0, length whole)))"

text \<open>The report of the round-trip example, and the same report with a volume of \<open>N/A\<close>.\<close>

definition example_report :: string where
  "example_report =
     ''DeviceX'' @ crlf @ ''S/N: 12345ABC'' @ crlf @ ''Vol: 123.456'' @ unit_suffix @ crlf
     @ ''Battery: 87%'' @ crlf @ ''2024-01-01: 100.000'' @ crlf"

definition unparsable_report :: string where
  "unparsable_report =
     ''DeviceX'' @ crlf @ ''S/N: 12345ABC'' @ crlf @ ''Vol: N/A'' @ crlf
     @ ''Battery: 87%'' @ crlf @ ''2024-01-01: 100.000'' @ crlf"

text \<open>
  A comma directly in front of a closing bracket or brace, anywhere in a string.
\<close>

definition closing :: "char \<Rightarrow> bool" where
  "closing c = (c = CHR '']'' \<or> c = CHR ''}'')"

fun trailing_separator :: "string \<Rightarrow> bool" where
  "trailing_separator (a # b # cs) =
     ((a = CHR '','' \<and> closing b) \<or> trailing_separator (b # cs))"
| "trailing_separator [a] = False"
| "trailing_separator [] = False"

text \<open>
  The shapes the three parts of the JSON string keep while the lines are processed:
  \<open>gjson\<close> and \<open>ajson\<close> are empty or run from a quote to a comma; \<open>hjson\<close> runs from a
  quote to the opening bracket or to the \<open>},\<close> of its last row.
\<close>

definition entries :: "string \<Rightarrow> bool" where
  "entries s =
     (\<not> trailing_separator s \<and> (s = [] \<or> (hd s = CHR 0x22 \<and> last s = CHR '','')))"

definition rows :: "string \<Rightarrow> bool" where
  "rows s =
     (\<not> trailing_separator s \<and> s \<noteq> [] \<and> hd s = CHR 0x22 \<and>
      (last s = CHR ''['' \<or>
       (last s = CHR '','' \<and> butlast s \<noteq> [] \<and> last (butlast s) = CHR ''}'')))"

definition state_ok :: "lambda_state \<Rightarrow> bool" where
  "state_ok st = (entries (gjson st) \<and> entries (ajson st) \<and> rows (hjson st))"

text \<open>A first line that closes its own string and opens an array.\<close>

definition injecting_report :: string where
  \<open>injecting_report = ''x","a":[1,],"b":"y'' @ crlf\<close>

section \<open>The report as the specification describes it\<close>

text \<open>
  The definitions of this section follow the words of the specification (its
  decoding steps and its round-trip example), not the lambda: a report is a list of
  lines, each ended by CR LF; the first line is the device name, and each further line
  with a colon is a history row, a field, the serial number or the battery level,
  according to its key. The properties compare what the lambda publishes with them.
\<close>

definition lines_text :: "string list \<Rightarrow> string" where
  "lines_text ls = concat (map (\<lambda>l. l @ crlf) ls)"

text \<open>The key and the value of a line: the text on either side of its first colon, trimmed.\<close>

definition has_delimiter :: "string \<Rightarrow> bool" where
  "has_delimiter l = (find_str '':'' l \<noteq> None)"

definition line_key :: "string \<Rightarrow> string" where
  "line_key l = (case find_str '':'' l of Some d \<Rightarrow> trim (take d l) | None \<Rightarrow> [])"

definition line_value :: "string \<Rightarrow> string" where
  "line_value l = (case find_str '':'' l of Some d \<Rightarrow> trim (drop (d + 1) l) | None \<Rightarrow> [])"

text \<open>The kinds of line: a key shaped like a date, one of the seven field keys, \<open>S/N\<close>, \<open>Battery\<close>.\<close>

definition date_shaped :: "string \<Rightarrow> bool" where
  "date_shaped key = (length key = 10 \<and> key ! 4 = CHR ''-'' \<and> key ! 7 = CHR ''-'')"

definition is_history :: "string \<Rightarrow> bool" where
  "is_history l = (has_delimiter l \<and> date_shaped (line_key l))"

definition is_field :: "string \<Rightarrow> bool" where
  "is_field l = (has_delimiter l \<and> field_key (line_key l))"

definition is_vol :: "string \<Rightarrow> bool" where
  "is_vol l = (has_delimiter l \<and> line_key l = ''Vol'')"

definition is_serial :: "string \<Rightarrow> bool" where
  "is_serial l = (has_delimiter l \<and> line_key l = ''S/N'')"

definition is_battery :: "string \<Rightarrow> bool" where
  "is_battery l = (has_delimiter l \<and> line_key l = ''Battery'')"

text \<open>The entry a line contributes to the general part, to the fields, to the history.\<close>

definition general_entry :: "string \<Rightarrow> string \<Rightarrow> string" where
  \<open>general_entry nfckey l =
     (if is_serial l then
        ''"SN": "'' @ line_value l @ ''",'' @ ''"NFC_Id": "'' @ line_value l @ ''",''
        @ ''"NFC_Typ": "'' @ nfckey @ ''",''
      else if is_battery l then ''"Battery": "'' @ line_value l @ ''",''
      else [])\<close>

definition field_entry :: "string \<Rightarrow> string" where
  \<open>field_entry l =
     (if is_field l then ''"'' @ line_key l @ ''": "'' @ line_value l @ ''",'' else [])\<close>

definition history_row :: "string \<Rightarrow> string" where
  \<open>history_row l = ''{"date": "'' @ line_key l @ ''", "volume": "'' @ line_value l @ ''"}''\<close>

text \<open>
  The JSON object of a report: the name, the general entries, the fields, and the history
  rows separated by commas.
\<close>

fun join_rows :: "string list \<Rightarrow> string" where
  "join_rows [] = []"
| "join_rows [r] = r"
| "join_rows (r # r' # rs) = r @ '','' @ join_rows (r' # rs)"

definition report_json :: "string \<Rightarrow> string \<Rightarrow> string list \<Rightarrow> string" where
  \<open>report_json nfckey name rest =
     ''{'' @ ''"Name": "'' @ name @ ''",''
     @ concat (map (general_entry nfckey) rest)
     @ concat (map field_entry rest)
     @ ''"history": ['' @ join_rows (map history_row (filter is_history rest)) @ '']}''\<close>

text \<open>The \<open>Vol\<close> value of a report: the value of its last \<open>Vol\<close> line, empty when there is none.\<close>

definition report_vol :: "string list \<Rightarrow> string" where
  "report_vol rest = (case filter is_vol rest of [] \<Rightarrow> [] | l # ls \<Rightarrow> line_value (last (l # ls)))"

text \<open>
  A text parses as a number when the conversion consumes all of it, and at least one
  character. Stripping a trailing unit suffix, as the specification words it, removes
  the unit only from the end of the value.
\<close>

definition parses_as_number :: "(string \<Rightarrow> 'v \<times> nat) \<Rightarrow> string \<Rightarrow> bool" where
  "parses_as_number strtof s = (snd (strtof s) \<noteq> 0 \<and> snd (strtof s) = length s)"

definition strip_trailing_unit :: "string \<Rightarrow> string" where
  "strip_trailing_unit v =
     (if length unit_suffix \<le> length v \<and> drop (length v - length unit_suffix) v = unit_suffix
      then take (length v - length unit_suffix) v else v)"

text \<open>
  Two reports with a \<open>Vol\<close> value that is not a number: one with text after the unit, one
  with a NUL byte after the digits.
\<close>

definition unit_cut_report :: string where
  "unit_cut_report = ''DeviceX'' @ crlf @ ''Vol: 5'' @ unit_suffix @ '' est'' @ crlf"

definition nul_report :: string where
  "nul_report = ''DeviceX'' @ crlf @ ''Vol: 12'' @ [CHR 0x00] @ ''ab'' @ crlf"

section \<open>Properties\<close>

lemmas locator_defs =
  find_mifare_ultralight_ndef_def log_page_def at_def MIFARE_ULTRALIGHT_PAGE_SIZE_def Let_def

text \<open>
  C1 (as stated, refuted). The claim says that a page 4 of \<open>03 FF 02 10\<close> makes the
  locator fall back to the literal length 255 at offset 2. On these sixteen bytes of
  pages 3 to 6 the locator answers 528 at offset 4 instead: the candidate length
  \<open>0x0210 = 528\<close> lies inside the accepted range \<open>255..924\<close>.
\<close>

theorem C1_literal_255_counterexample:
  "find_mifare_ultralight_ndef [0, 0, 0, 0, 0x03, 0xFF, 0x02, 0x10, 0, 0, 0, 0, 0, 0, 0, 0]
     \<noteq> Done (Some (255, 2))"
  by (simp add: locator_defs)

text \<open>
  C1 (amended). For every scan window whose four bytes at the page-4 origin are
  \<open>03 FF 02 10\<close> and which passes the locator's size guard (more than nine bytes in
  all), the locator succeeds with \<open>message_length = 528\<close> and
  \<open>message_start_index = 4\<close>: the extended-length interpretation.
\<close>

theorem C1_extended_length_528:
  assumes "length page3 = 4" and "2 \<le> length rest"
  shows "find_mifare_ultralight_ndef (page3 @ [0x03, 0xFF, 0x02, 0x10] @ rest)
           = Done (Some (528, 4))"
  using assms by (simp add: locator_defs nth_append)

theorem C1_extended_length_528_witness:
  "length [0, 0, 0, 0 :: byte] = 4 \<and> 2 \<le> length [0, 0, 0, 0, 0, 0, 0, 0 :: byte] \<and>
   find_mifare_ultralight_ndef
     ([0, 0, 0, 0] @ [0x03, 0xFF, 0x02, 0x10] @ [0, 0, 0, 0, 0, 0, 0, 0]) = Done (Some (528, 4))"
  using C1_extended_length_528 [of "[0, 0, 0, 0]" "[0, 0, 0, 0, 0, 0, 0, 0]"] by simp

text \<open>
  C2. For every scan window whose four bytes at the page-4 origin are \<open>03 FF 03 1E\<close>
  and which passes the size guard, the locator succeeds with \<open>message_length = 30\<close> and
  \<open>message_start_index = 4\<close> (the second TLV), and so not with the literal 255.
\<close>

theorem C2_second_tlv_30:
  assumes "length page3 = 4" and "2 \<le> length rest"
  shows "find_mifare_ultralight_ndef (page3 @ [0x03, 0xFF, 0x03, 0x1E] @ rest)
           = Done (Some (30, 4)) \<and>
         find_mifare_ultralight_ndef (page3 @ [0x03, 0xFF, 0x03, 0x1E] @ rest)
           \<noteq> Done (Some (255, 2))"
  using assms by (simp add: locator_defs nth_append)

theorem C2_second_tlv_30_witness:
  "length [0, 0, 0, 0 :: byte] = 4 \<and> 2 \<le> length [0, 0, 0, 0, 0, 0, 0, 0 :: byte] \<and>
   find_mifare_ultralight_ndef
     ([0, 0, 0, 0] @ [0x03, 0xFF, 0x03, 0x1E] @ [0, 0, 0, 0, 0, 0, 0, 0]) = Done (Some (30, 4))"
  using C2_second_tlv_30 [of "[0, 0, 0, 0]" "[0, 0, 0, 0, 0, 0, 0, 0]"] by simp

text \<open>
  C9. The locator reads offsets 4 to 7 for its first log line before any size test: on
  a vector of fewer than eight bytes the run ends in an undefined read (at offset 4, or
  at the first offset past the end). \<open>is_mifare_ultralight_formatted_\<close> answers true
  only for vectors of at least eight bytes, and on every such vector all reads of the
  locator are in bounds.
\<close>

theorem C9_locator_reads_in_bounds:
  "(is_mifare_ultralight_formatted d = Done True \<longrightarrow> 8 \<le> length d) \<and>
   (8 \<le> length d \<longrightarrow> (\<exists>r. find_mifare_ultralight_ndef d = Done r)) \<and>
   (length d < 8 \<longrightarrow> find_mifare_ultralight_ndef d = Undefined_Read (max 4 (length d)))"
proof (intro conjI impI)
  assume "is_mifare_ultralight_formatted d = Done True"
  then show "8 \<le> length d"
    by (simp add: is_mifare_ultralight_formatted_def MIFARE_ULTRALIGHT_PAGE_SIZE_def
        split: if_splits)
next
  assume "8 \<le> length d"
  then show "\<exists>r. find_mifare_ultralight_ndef d = Done r"
    by (simp add: locator_defs)
next
  assume "length d < 8"
  then show "find_mifare_ultralight_ndef d = Undefined_Read (max 4 (length d))"
    by (auto simp add: locator_defs max_def)
qed

theorem C9_locator_reads_in_bounds_witness:
  "is_mifare_ultralight_formatted [0, 0, 0, 0, 0x03, 0x05, 1, 2, 3, 4, 5, 0xFE] = Done True \<and>
   8 \<le> length [0, 0, 0, 0, 0x03, 0x05, 1, 2, 3, 4, 5, 0xFE :: byte] \<and>
   find_mifare_ultralight_ndef [0, 0, 0, 0, 0x03, 0x05, 1, 2, 3, 4, 5, 0xFE] = Done (Some (5, 2)) \<and>
   length [0, 0, 0, 0, 0x03 :: byte] < 8 \<and>
   find_mifare_ultralight_ndef [0, 0, 0, 0, 0x03] = Undefined_Read 5"
  using C9_locator_reads_in_bounds [of "[0, 0, 0, 0, 0x03, 0x05, 1, 2, 3, 4, 5, 0xFE]"]
    C9_locator_reads_in_bounds [of "[0, 0, 0, 0, 0x03]"]
  by (simp add: locator_defs is_mifare_ultralight_formatted_def)

subsection \<open>Reading pages\<close>













subsection \<open>Checked reads and size arithmetic\<close>

lemma at_weak_cong: "v = v' \<Longrightarrow> i = i' \<Longrightarrow> at v i k = at v' i' k"
  by simp

lemma at_in: "i < length v \<Longrightarrow> at v i k = k (v ! i)"
  by (simp add: at_def)

lemma at_out: "\<not> i < length v \<Longrightarrow> at v i k = Undefined_Read i"
  by (simp add: at_def)

lemma size_sub_le: "b \<le> a \<Longrightarrow> size_sub a b \<le> a - b"
proof -
  assume "b \<le> a"
  then have "0 \<le> int a - int b" by simp
  then have "(int a - int b) mod 2 ^ 32 \<le> int a - int b"
    by (rule zmod_le_nonneg_dividend)
  then show ?thesis by (simp add: size_sub_def)
qed

subsection \<open>The read target\<close>

lemmas read_target_defs =
  extra_read_length_def target_read_length_def read_target_def read_length_def
  tlv_remaining_length_def

text \<open>
  C4 (the code falls short of the claim). The claim: the bytes asked for after the
  first sixteen are the larger of \<open>message_length + message_start_index - 12\<close> and the
  floor, so never fewer than the TLV says remain. On a tag whose page 4 is
  \<open>03 FF 02 10\<close> the locator yields length 528 at offset 4; 520 bytes remain, but
  \<open>read_length\<close> is a \<open>uint8_t\<close> and keeps \<open>520 mod 256 = 8\<close>, so the component file
  asks for 200 bytes and the copy \<open>part_001\<close> for 300.
\<close>

theorem C4_read_target_wraps:
  "find_mifare_ultralight_ndef [0, 0, 0, 0, 0x03, 0xFF, 0x02, 0x10, 0, 0, 0, 0, 0, 0, 0, 0]
     = Done (Some (528, 4)) \<and>
   tlv_remaining_length 528 4 = 520 \<and>
   read_length 528 4 = 8 \<and>
   extra_read_length 528 4 = 200 \<and>
   target_read_length 528 4 = 300"
  by (simp add: locator_defs read_target_defs)

subsection \<open>Trimming and the inner TLV scan\<close>

lemma trim_to_message_short:
  assumes "unat msi + 4 < length data" and "length data < unat msi + 4 + unat ml"
  shows "trim_to_message data ml msi
           = Some (drop (unat msi + 4) data, of_nat (length data - (unat msi + 4)))"
    and "unat (of_nat (length data - (unat msi + 4)) :: 16 word) = length data - (unat msi + 4)"
proof -
  have "unat ml < 2 ^ 16" using unsigned_less [of ml, where ?'a = nat] by simp
  with assms have "length data - (unat msi + 4) < 2 ^ 16" by simp
  then show u: "unat (of_nat (length data - (unat msi + 4)) :: 16 word)
                  = length data - (unat msi + 4)"
    by (simp add: unat_of_nat)
  show "trim_to_message data ml msi
           = Some (drop (unat msi + 4) data, of_nat (length data - (unat msi + 4)))"
    using assms u by (simp add: trim_to_message_def MIFARE_ULTRALIGHT_PAGE_SIZE_def Let_def)
qed

lemma trim_to_message_None:
  assumes "ml \<noteq> 0"
  shows "trim_to_message data ml msi = None \<longleftrightarrow> length data \<le> unat msi + 4"
proof -
  from assms have "0 < unat ml" by (simp add: unat_gt_0)
  then show ?thesis
    by (auto simp: trim_to_message_def MIFARE_ULTRALIGHT_PAGE_SIZE_def Let_def)
qed

lemma inner_tlv_loop_Done:
  "data \<noteq> [] \<Longrightarrow> \<exists>r. inner_tlv_loop data i acc = Done r"
proof (induction data i acc rule: inner_tlv_loop.induct)
  case (1 data i c f e)
  from "1.prems" have bound: "size_sub (length data) 1 \<le> length data - 1"
    by (intro size_sub_le) (cases data, simp_all)
  show ?case
  proof (cases "i < size_sub (length data) 1")
    case False
    then show ?thesis by simp
  next
    case True
    with bound have "i < length data" "i + 1 < length data" by simp_all
    then show ?thesis
      using True "1.IH" "1.prems"
      by (simp add: at_in Let_def del: inner_tlv_loop.simps add: inner_tlv_loop.simps [of data i])
  qed
qed

lemma inner_tlv_loop_no_tag:
  "0x03 \<notin> set data \<Longrightarrow> data \<noteq> [] \<Longrightarrow> inner_tlv_loop data i acc = Done acc"
proof (induction data i acc rule: inner_tlv_loop.induct)
  case (1 data i c f e)
  from "1.prems" have bound: "size_sub (length data) 1 \<le> length data - 1"
    by (intro size_sub_le) (cases data, simp_all)
  show ?case
  proof (cases "i < size_sub (length data) 1")
    case False
    then show ?thesis by simp
  next
    case True
    with bound have i: "i < length data" by simp
    with "1.prems" have "data ! i \<noteq> 0x03" by (metis nth_mem)
    then show ?thesis
      using True "1.IH"(3) [of "data ! i"] "1.prems" i
      by (simp add: at_in del: inner_tlv_loop.simps add: inner_tlv_loop.simps [of data i])
  qed
qed

lemma inner_tlv_loop_length:
  "inner_tlv_loop data i acc = Done r \<Longrightarrow> length (fst acc) \<le> i \<Longrightarrow> i \<le> length data \<Longrightarrow>
   data \<noteq> [] \<Longrightarrow> length (fst r) \<le> length data"
proof (induction data i acc rule: inner_tlv_loop.induct)
  case (1 data i c f e)
  from "1.prems" have bound: "size_sub (length data) 1 \<le> length data - 1"
    by (intro size_sub_le) (cases data, simp_all)
  show ?case
  proof (cases "i < size_sub (length data) 1")
    case False
    with "1.prems" show ?thesis by auto
  next
    case True
    with bound have i: "i < length data" "i + 1 < length data" by simp_all
    let ?len = "data ! (i + 1)"
    show ?thesis
    proof (cases "data ! i = 0x03 \<and> i + 1 < length data")
      case False
      from "1.prems"(1) have "inner_tlv_loop data (i + 1) (c, f, e) = Done r"
        using True False i
        by (auto simp add: at_in simp del: inner_tlv_loop.simps
            simp add: inner_tlv_loop.simps [of data i])
      from "1.IH"(3) [OF True False this] "1.prems" i show ?thesis by simp
    next
      case tag: True
      show ?thesis
      proof (cases "?len > 0 \<and> ?len < 255 \<and> i + 2 + unat ?len \<le> length data")
        case False
        from "1.prems"(1) have "inner_tlv_loop data (i + 1) (c, f, e) = Done r"
          using True tag False i
          by (auto simp add: at_in simp del: inner_tlv_loop.simps
              simp add: inner_tlv_loop.simps [of data i])
        from "1.IH"(2) [OF True tag False this] "1.prems" i show ?thesis by simp
      next
        case valid: True
        let ?inner = "take (unat ?len) (drop (i + 2) data)"
        let ?e' = "if \<not> f then analyse_record ?inner e else e"
        let ?c' = "if \<not> f then ?inner else c @ ?inner"
        from "1.prems"(1) have
          run: "inner_tlv_loop data (i + (unat ?len + 1) + 1) (?c', True, ?e') = Done r"
          using True tag valid i
          by (auto simp add: at_in Let_def simp del: inner_tlv_loop.simps
              simp add: inner_tlv_loop.simps [of data i])
        have "length ?c' \<le> i + (unat ?len + 1) + 1"
          using "1.prems"(2) by (auto simp add: min_def)
        moreover have "i + (unat ?len + 1) + 1 \<le> length data"
          using valid by simp
        ultimately show ?thesis
          using "1.IH"(1) [OF True tag valid refl refl refl run] "1.prems"(4) by simp
      qed
    qed
  qed
qed

lemma inner_tlv_scan_length:
  assumes "inner_tlv_scan data = Done payload" and "data \<noteq> []"
  shows "length payload \<le> length data"
proof -
  from assms(1) obtain c f e where
    run: "inner_tlv_loop data 0 ([], False, 0) = Done (c, f, e)"
    and p: "payload = use_inner_tlv data (c, f, e)"
    by (auto simp add: inner_tlv_scan_def split: checked.splits)
  from inner_tlv_loop_length [OF run] assms(2) have "length c \<le> length data" by simp
  with p show ?thesis by (simp add: use_inner_tlv_def)
qed

lemma inner_tlv_scan_Done:
  assumes "data \<noteq> []"
  shows "\<exists>payload. inner_tlv_scan data = Done payload"
  using inner_tlv_loop_Done [OF assms, of 0 "([], False, 0)"]
  by (auto simp add: inner_tlv_scan_def)

lemma inner_tlv_scan_no_tag:
  assumes "0x03 \<notin> set data" and "data \<noteq> []"
  shows "inner_tlv_scan data = Done data"
  using inner_tlv_loop_no_tag [OF assms, of 0 "([], False, 0)"]
  by (simp add: inner_tlv_scan_def use_inner_tlv_def)

lemmas assemble_defs =
  assemble_message_def trim_to_message_def MIFARE_ULTRALIGHT_PAGE_SIZE_def inner_tlv_scan_def
  use_inner_tlv_def analyse_record_def Let_def size_sub_def

text \<open>
  C5 (as stated, refuted). The claim says that a short buffer yields a tag whose NDEF
  data has exactly the available length. These twenty bytes are what a tag returns
  whose page 4 is \<open>03 FF 05 00\<close>: the locator yields length 255 at offset 2, so
  \<open>trim_offset = 6\<close> and fourteen bytes are available. The trimmed bytes hold an inner
  TLV \<open>03 01 AA\<close>, and the tag returned carries the single byte \<open>AA\<close>.
\<close>

theorem C5_available_length_counterexample:
  "find_mifare_ultralight_ndef
     (take 16 [0, 0, 0, 0, 0x03, 0xFF, 0x05, 0x00, 0x03, 0x01, 0xAA, 0, 0, 0, 0, 0, 0, 0, 0, 0])
     = Done (Some (255, 2)) \<and>
   assemble_message
     [0, 0, 0, 0, 0x03, 0xFF, 0x05, 0x00, 0x03, 0x01, 0xAA, 0, 0, 0, 0, 0, 0, 0, 0, 0] 255 2
     = Done (Some [0xAA])"
  by (simp add: locator_defs assemble_defs at_in at_out cong: at_weak_cong)

text \<open>
  C5 (amended). For every reconstruction in which, after the additional reads, the
  buffer holds fewer than \<open>trim_offset + message_length\<close> bytes but more than
  \<open>trim_offset\<close> bytes (\<open>trim_offset = message_start_index + 4\<close>), the function does not
  abort: it narrows \<open>message_length\<close> to the buffer size minus \<open>trim_offset\<close>, trims the
  buffer to exactly these available bytes, and returns a tag with NDEF data of at most
  the available length: the trimmed bytes themselves when none of them is \<open>0x03\<close>,
  and otherwise what the scan for inner TLVs makes of them. With a non-zero
  \<open>message_length\<close>, the tag is returned without NDEF data exactly when no byte past
  \<open>trim_offset\<close> is available.
\<close>

theorem C5_truncated_message:
  "(unat msi + 4 < length data \<and> length data < unat msi + 4 + unat ml \<longrightarrow>
      trim_to_message data ml msi
        = Some (drop (unat msi + 4) data, of_nat (length data - (unat msi + 4))) \<and>
      unat (of_nat (length data - (unat msi + 4)) :: 16 word) = length data - (unat msi + 4) \<and>
      (\<exists>payload. assemble_message data ml msi = Done (Some payload) \<and>
         length payload \<le> length data - (unat msi + 4)) \<and>
      (0x03 \<notin> set (drop (unat msi + 4) data) \<longrightarrow>
         assemble_message data ml msi = Done (Some (drop (unat msi + 4) data)))) \<and>
   (ml \<noteq> 0 \<longrightarrow>
      (assemble_message data ml msi = Done None \<longleftrightarrow> length data \<le> unat msi + 4))"
proof (intro conjI impI)
  assume short: "unat msi + 4 < length data \<and> length data < unat msi + 4 + unat ml"
  let ?trimmed = "drop (unat msi + 4) data"
  from short have trim: "trim_to_message data ml msi
           = Some (?trimmed, of_nat (length data - (unat msi + 4)))"
    by (simp add: trim_to_message_short)
  from short have nonempty: "?trimmed \<noteq> []" by simp
  show "trim_to_message data ml msi
           = Some (?trimmed, of_nat (length data - (unat msi + 4)))"
    by (fact trim)
  show "unat (of_nat (length data - (unat msi + 4)) :: 16 word) = length data - (unat msi + 4)"
    using trim_to_message_short(2) [of msi data ml] short by blast
  from inner_tlv_scan_Done [OF nonempty] obtain payload where
    scan: "inner_tlv_scan ?trimmed = Done payload" by blast
  from inner_tlv_scan_length [OF scan nonempty]
  have "length payload \<le> length data - (unat msi + 4)" by simp
  with scan trim show "\<exists>payload. assemble_message data ml msi = Done (Some payload) \<and>
         length payload \<le> length data - (unat msi + 4)"
    by (simp add: assemble_message_def)
  assume "0x03 \<notin> set ?trimmed"
  from inner_tlv_scan_no_tag [OF this nonempty] trim
  show "assemble_message data ml msi = Done (Some ?trimmed)"
    by (simp add: assemble_message_def)
next
  assume "ml \<noteq> 0"
  from trim_to_message_None [OF this, of data msi]
  show "assemble_message data ml msi = Done None \<longleftrightarrow> length data \<le> unat msi + 4"
    by (auto simp add: assemble_message_def split: option.splits checked.splits)
qed

theorem C5_truncated_message_witness:
  "unat (2 :: byte) + 4 < length [0, 0, 0, 0, 0x03, 0xFF, 0x05, 0x00, 1, 2 :: byte] \<and>
   length [0, 0, 0, 0, 0x03, 0xFF, 0x05, 0x00, 1, 2 :: byte]
     < unat (2 :: byte) + 4 + unat (255 :: 16 word) \<and>
   0x03 \<notin> set (drop (unat (2 :: byte) + 4) [0, 0, 0, 0, 0x03, 0xFF, 0x05, 0x00, 1, 2 :: byte]) \<and>
   assemble_message [0, 0, 0, 0, 0x03, 0xFF, 0x05, 0x00, 1, 2] 255 2 = Done (Some [0x05, 0x00, 1, 2]) \<and>
   (255 :: 16 word) \<noteq> 0 \<and>
   length [0, 0, 0, 0, 0x03, 0xFF :: byte] \<le> unat (2 :: byte) + 4 \<and>
   assemble_message [0, 0, 0, 0, 0x03, 0xFF] 255 2 = Done None"
  using C5_truncated_message [of 2 "[0, 0, 0, 0, 0x03, 0xFF, 0x05, 0x00, 1, 2]" 255]
    C5_truncated_message [of 2 "[0, 0, 0, 0, 0x03, 0xFF]" 255]
  by simp

subsection \<open>The direct record scan\<close>

lemma direct_record_loop_Done:
  "3 \<le> length data \<Longrightarrow> \<exists>r. direct_record_loop data i acc = Done r"
proof (induction data i acc rule: direct_record_loop.induct)
  case (1 data i starts expected)
  from "1.prems" have bound: "size_sub (length data) 3 \<le> length data - 3"
    by (rule size_sub_le)
  show ?case
  proof (cases "i < size_sub (length data) 3")
    case False
    then show ?thesis by simp
  next
    case True
    with bound "1.prems" have i: "i < length data" by simp
    let ?flags = "data ! i"
    show ?thesis
    proof (cases "(?flags AND 0x07) \<le> 0x06 \<and> (?flags AND 0x10) \<noteq> 0 \<and> i + 3 < length data")
      case False
      from "1.IH"(3) [OF True False "1.prems"] show ?thesis
        using True False i
        by (auto simp add: at_in simp del: direct_record_loop.simps
            simp add: direct_record_loop.simps [of data i])
    next
      case header: True
      then have i12: "i + 1 < length data" "i + 2 < length data" by simp_all
      let ?tl = "data ! (i + 1)" and ?pl = "data ! (i + 2)"
      show ?thesis
      proof (cases "?tl \<le> 8 \<and> ?pl > 0 \<and> ?pl < 200")
        case False
        from "1.IH"(2) [OF True header False "1.prems"] show ?thesis
          using True header False i i12
          by (auto simp add: at_in simp del: direct_record_loop.simps
              simp add: direct_record_loop.simps [of data i])
      next
        case valid: True
        from "1.IH"(1) [OF True header valid refl "1.prems"] show ?thesis
          using True header valid i i12
          by (auto simp add: at_in Let_def simp del: direct_record_loop.simps
              simp add: direct_record_loop.simps [of data i])
      qed
    qed
  qed
qed

lemma direct_record_loop_underflow:
  assumes "length data < 3"
  shows "direct_record_loop data 0 acc = Undefined_Read (length data)"
proof -
  from assms consider "length data = 0" | "length data = 1" | "length data = 2" by linarith
  then show ?thesis
  proof cases
    case 1
    then show ?thesis
      by (cases acc) (simp add: at_in at_out size_sub_def cong: at_weak_cong)
  next
    case 2
    then show ?thesis
      by (cases acc) (simp add: at_in at_out size_sub_def cong: at_weak_cong)
  next
    case 3
    then show ?thesis
      by (cases acc) (simp add: at_in at_out size_sub_def cong: at_weak_cong)
  qed
qed

text \<open>
  C10. In the direct record scan of \<open>part_001\<close> the bound \<open>data.size() - 3\<close> is
  computed in unsigned arithmetic. On a payload of at least three bytes every read of
  the scan (\<open>data[i]\<close>, and \<open>data[i + 1]\<close>, \<open>data[i + 2]\<close> behind \<open>i + 3 < data.size()\<close>)
  is in bounds. On a payload of fewer than three bytes the bound wraps around to a
  value near \<open>2 ^ 32\<close> and the scan reads past the end, first at the offset
  \<open>data.size()\<close>: the precondition is needed.
\<close>

theorem C10_direct_record_scan_bounds:
  "(3 \<le> length data \<longrightarrow> (\<exists>r. direct_record_scan data = Done r)) \<and>
   (length data < 3 \<longrightarrow>
      size_sub (length data) 3 = 2 ^ 32 - 3 + length data \<and>
      direct_record_scan data = Undefined_Read (length data))"
proof (intro conjI impI)
  assume "3 \<le> length data"
  then show "\<exists>r. direct_record_scan data = Done r"
    unfolding direct_record_scan_def by (rule direct_record_loop_Done)
next
  assume short: "length data < 3"
  then consider "length data = 0" | "length data = 1" | "length data = 2" by linarith
  then show "size_sub (length data) 3 = 2 ^ 32 - 3 + length data"
    by cases (simp_all add: size_sub_def)
  from short show "direct_record_scan data = Undefined_Read (length data)"
    unfolding direct_record_scan_def by (rule direct_record_loop_underflow)
qed

theorem C10_direct_record_scan_bounds_witness:
  "3 \<le> length [0xD1, 0x01, 0x05, 0x54, 1, 2, 3, 4, 5 :: byte] \<and>
   direct_record_scan [0xD1, 0x01, 0x05, 0x54, 1, 2, 3, 4, 5] = Done ([0, 3], 9) \<and>
   length [0xD1, 0x01 :: byte] < 3 \<and>
   size_sub (length [0xD1, 0x01 :: byte]) 3 = 4294967295 \<and>
   direct_record_scan [0xD1, 0x01] = Undefined_Read 2"
proof -
  have long: "3 \<le> length [0xD1, 0x01, 0x05, 0x54, 1, 2, 3, 4, 5 :: byte]" by simp
  have short: "length [0xD1, 0x01 :: byte] < 3" by simp
  from C10_direct_record_scan_bounds [of "[0xD1, 0x01, 0x05, 0x54, 1, 2, 3, 4, 5]"] long
  obtain r where r: "direct_record_scan [0xD1, 0x01, 0x05, 0x54, 1, 2, 3, 4, 5] = Done r"
    by blast
  have "direct_record_scan [0xD1, 0x01, 0x05, 0x54, 1, 2, 3, 4, 5] = Done ([0, 3], 9)"
    by (simp add: direct_record_scan_def at_in at_out size_sub_def cong: at_weak_cong)
  moreover from C10_direct_record_scan_bounds [of "[0xD1, 0x01]"] short
  have "size_sub (length [0xD1, 0x01 :: byte]) 3 = 2 ^ 32 - 3 + length [0xD1, 0x01 :: byte]"
    and "direct_record_scan [0xD1, 0x01] = Undefined_Read (length [0xD1, 0x01 :: byte])"
    by blast+
  ultimately show ?thesis using r by simp
qed

subsection \<open>The report decoder\<close>

lemmas decoder_defs =
  on_tag_def strip_crc_def close_json_def vol_numeric_def conversion_ok_def c_str_def
  process_line_def trim_def blank_def field_key_def initial_state_def crlf_def unit_suffix_def
  Let_def

text \<open>The letters \<open>A\<close> to \<open>Z\<close> are mapped to \<open>a\<close> to \<open>z\<close>.\<close>

lemma to_lower_alphabet:
  "map to_lower ''ABCDEFGHIJKLMNOPQRSTUVWXYZ'' = ''abcdefghijklmnopqrstuvwxyz''"
  by code_simp

lemma to_lower_serial:
  "to_lower CHR ''1'' = CHR ''1''" "to_lower CHR ''2'' = CHR ''2''"
  "to_lower CHR ''3'' = CHR ''3''" "to_lower CHR ''4'' = CHR ''4''"
  "to_lower CHR ''5'' = CHR ''5''" "to_lower CHR ''A'' = CHR ''a''"
  "to_lower CHR ''B'' = CHR ''b''" "to_lower CHR ''C'' = CHR ''c''"
  by code_simp+

lemma decode_example_report:
  \<open>decode_lines nfckey (strip_crc example_report) initial_state =
     \<lparr>gjson = ''"Name": "DeviceX","SN": "12345ABC","NFC_Id": "12345ABC","NFC_Typ": "'' @ nfckey
                @ ''","Battery": "87%",'',
      ajson = ''"Vol": "123.456'' @ unit_suffix @ ''",'',
      hjson = ''"history": [{"date": "2024-01-01", "volume": "100.000"},'',
      isn = ''12345ABC'',
      vol_value = ''123.456'' @ unit_suffix,
      is_first_line = False\<rparr>\<close>
  by (simp add: example_report_def decoder_defs decode_lines.simps)

lemma decode_unparsable_report:
  \<open>decode_lines nfckey (strip_crc unparsable_report) initial_state =
     \<lparr>gjson = ''"Name": "DeviceX","SN": "12345ABC","NFC_Id": "12345ABC","NFC_Typ": "'' @ nfckey
                @ ''","Battery": "87%",'',
      ajson = ''"Vol": "N/A",'',
      hjson = ''"history": [{"date": "2024-01-01", "volume": "100.000"},'',
      isn = ''12345ABC'',
      vol_value = ''N/A'',
      is_first_line = False\<rparr>\<close>
  by (simp add: unparsable_report_def decoder_defs decode_lines.simps)

text \<open>
  C6. The report \<open>DeviceX / S/N: 12345ABC / Vol: 123.456 m^3 / Battery: 87% /
  2024-01-01: 100.000\<close> (lines ended by CRLF, the unit in UTF-8) is decoded to the name
  \<open>DeviceX\<close>, the serial number \<open>12345ABC\<close>, in lower case \<open>12345abc\<close>, the field \<open>Vol\<close>
  with the value and its unit, and one history row. The string handed to \<open>strtof\<close> is
  \<open>123.456\<close>; the volume published is the value \<open>strtof\<close> reads from these seven
  characters.
\<close>

theorem C6_example_report_decoded:
  assumes "strtof ''123.456'' = (v, 7)"
  shows \<open>on_tag strtof nfckey example_report =
     \<lparr>water_meter_json = Some (''{"Name": "DeviceX","SN": "12345ABC","NFC_Id": "12345ABC","NFC_Typ": "''
                @ nfckey @ ''","Battery": "87%","Vol": "123.456'' @ unit_suffix
                @ ''","history": [{"date": "2024-01-01", "volume": "100.000"}]}''),
      water_volume = Some v,
      iconv = ''12345ABC'',
      isn_lower = ''12345abc''\<rparr> \<and>
     ajson (decode_lines nfckey (strip_crc example_report) initial_state)
       = ''"Vol": "123.456'' @ unit_suffix @ ''",'' \<and>
     hjson (decode_lines nfckey (strip_crc example_report) initial_state)
       = ''"history": [{"date": "2024-01-01", "volume": "100.000"},''\<close>
proof -
  have "example_report \<noteq> ''''" by (simp add: example_report_def)
  with assms show ?thesis
    by (simp add: on_tag_def decode_example_report to_lower_serial close_json_def Let_def
        vol_numeric_def conversion_ok_def c_str_def unit_suffix_def)
qed

theorem C6_example_report_decoded_witness:
  \<open>read_decimal ''123.456'' = (Decimal 123456 3, 7) \<and>
   on_tag read_decimal NFC_FORUM_TYPE_2 example_report =
     \<lparr>water_meter_json = Some (''{"Name": "DeviceX","SN": "12345ABC","NFC_Id": "12345ABC","NFC_Typ": "NFC Forum Type 2","Battery": "87%","Vol": "123.456'' @ unit_suffix
                @ ''","history": [{"date": "2024-01-01", "volume": "100.000"}]}''),
      water_volume = Some (Decimal 123456 3),
      iconv = ''12345ABC'',
      isn_lower = ''12345abc''\<rparr>\<close>
proof -
  have parsed: "read_decimal ''123.456'' = (Decimal 123456 3, 7)"
    by (simp add: read_decimal_def is_digit_def Let_def)
  from C6_example_report_decoded
         [where strtof = read_decimal and v = "Decimal 123456 3" and nfckey = NFC_FORUM_TYPE_2]
       parsed
  show ?thesis by (simp add: NFC_FORUM_TYPE_2_def)
qed

text \<open>
  The lambda on a report of lines. Each line without a CR, followed by CR LF, is one
  turn of the loop; text without CR LF ends the loop; the cut at \<open>CRC\<close> keeps all the
  lines in front of the marker.
\<close>

lemma find_crlf_line:
  "CHR 0x0D \<notin> set l \<Longrightarrow> find_str crlf (l @ crlf @ r) = Some (length l)"
  by (induction l) (auto simp add: crlf_def)

lemma find_crlf_none: "CHR 0x0D \<notin> set r \<Longrightarrow> find_str crlf r = None"
  by (induction r) (auto simp add: crlf_def)

lemma decode_lines_line:
  assumes "CHR 0x0D \<notin> set l"
  shows "decode_lines k (l @ crlf @ r) st = decode_lines k r (process_line k l st)"
proof -
  have f: "find_str crlf (l @ crlf @ r) = Some (length l)"
    by (rule find_crlf_line [OF assms])
  have t: "take (length l) (l @ crlf @ r) = l" by simp
  have d: "drop (length l + 2) (l @ crlf @ r) = r" by (simp add: crlf_def)
  show ?thesis
    by (subst decode_lines.simps) (simp only: f t d option.case)
qed

lemma decode_lines_lines:
  "list_all (\<lambda>l. CHR 0x0D \<notin> set l) ls \<Longrightarrow>
   decode_lines k (lines_text ls @ r) st
     = decode_lines k r (foldl (\<lambda>st l. process_line k l st) st ls)"
proof (induction ls arbitrary: st)
  case Nil
  then show ?case by (simp add: lines_text_def)
next
  case (Cons l ls)
  from Cons.prems have l: "CHR 0x0D \<notin> set l" and ls: "list_all (\<lambda>l. CHR 0x0D \<notin> set l) ls"
    by simp_all
  have shape: "lines_text (l # ls) @ r = l @ crlf @ (lines_text ls @ r)"
    by (simp add: lines_text_def)
  show ?case
    unfolding shape by (simp add: decode_lines_line [OF l] Cons.IH [OF ls])
qed

lemma decode_lines_end: "find_str crlf r = None \<Longrightarrow> decode_lines k r st = st"
  by (subst decode_lines.simps) simp

lemma field_key_not_date: "field_key k \<Longrightarrow> \<not> date_shaped k"
  by (auto simp add: field_key_def date_shaped_def)

lemma process_line_parts:
  assumes "\<not> is_first_line st"
  shows "gjson (process_line k l st) = gjson st @ general_entry k l"
    and "ajson (process_line k l st) = ajson st @ field_entry l"
    and "hjson (process_line k l st)
           = hjson st @ (if is_history l then history_row l @ '','' else [])"
    and "vol_value (process_line k l st) = (if is_vol l then line_value l else vol_value st)"
    and "\<not> is_first_line (process_line k l st)"
  using assms
  by (auto simp add: process_line_def Let_def general_entry_def field_entry_def history_row_def
      is_history_def is_field_def is_vol_def is_serial_def is_battery_def has_delimiter_def
      line_key_def line_value_def date_shaped_def field_key_def
      split: option.splits)


lemma foldl_process_line:
  assumes "\<not> is_first_line st"
  shows "\<not> is_first_line (foldl (\<lambda>st l. process_line k l st) st ls)"
    and "gjson (foldl (\<lambda>st l. process_line k l st) st ls)
           = gjson st @ concat (map (general_entry k) ls)"
    and "ajson (foldl (\<lambda>st l. process_line k l st) st ls)
           = ajson st @ concat (map field_entry ls)"
    and "hjson (foldl (\<lambda>st l. process_line k l st) st ls)
           = hjson st @ concat (map (\<lambda>r. r @ '','') (map history_row (filter is_history ls)))"
    and "vol_value (foldl (\<lambda>st l. process_line k l st) st ls)
           = (case filter is_vol ls of [] \<Rightarrow> vol_value st | x # xs \<Rightarrow> line_value (last (x # xs)))"
  using assms
proof (induction ls arbitrary: st)
  case Nil
  {
    case 1 then show ?case by simp
  next
    case 2 then show ?case by simp
  next
    case 3 then show ?case by simp
  next
    case 4 then show ?case by simp
  next
    case 5 then show ?case by simp
  }
next
  case (Cons l ls)
  {
    case 1
    then show ?case by (simp add: Cons.IH(1) process_line_parts(5))
  next
    case 2
    then show ?case by (simp add: Cons.IH(2) process_line_parts)
  next
    case 3
    then show ?case by (simp add: Cons.IH(3) process_line_parts)
  next
    case 4
    then show ?case by (simp add: Cons.IH(4) process_line_parts)
  next
    case 5
    then show ?case
      by (simp add: Cons.IH(5) process_line_parts split: list.splits)
  }
qed


lemma find_str_before:
  "prefix pat ys \<Longrightarrow> \<exists>n\<le>length xs. find_str pat (xs @ ys) = Some n"
proof (induction xs)
  case Nil
  then show ?case by (cases ys) auto
next
  case (Cons x xs)
  then show ?case by auto
qed

lemma find_str_le: "find_str pat s = Some n \<Longrightarrow> n \<le> length s"
  by (induction s arbitrary: n) (auto split: if_splits)

lemma find_crc_after:
  assumes "find_str ''CRC'' xs = None" and "xs = [] \<or> last xs = CHR 0x0A"
  shows "find_str ''CRC'' (xs @ ys) = map_option (\<lambda>n. length xs + n) (find_str ''CRC'' ys)"
  using assms
proof (induction xs)
  case Nil
  then show ?case by (simp add: option.map_ident)
next
  case (Cons x xs)
  from Cons.prems(1) have here: "\<not> prefix ''CRC'' (x # xs)" and later: "find_str ''CRC'' xs = None"
    by (simp_all split: if_splits)
  from Cons.prems(2) have last: "xs = [] \<or> last xs = CHR 0x0A"
    by (cases xs) simp_all
  have "\<not> prefix ''CRC'' (x # xs @ ys)"
  proof (cases xs)
    case Nil
    with Cons.prems(2) show ?thesis by auto
  next
    case (Cons a as)
    note outer = this
    show ?thesis
    proof (cases as)
      case Nil
      with outer Cons.prems(2) show ?thesis by auto
    next
      case (Cons b bs)
      with outer here show ?thesis by auto
    qed
  qed
  then have "find_str ''CRC'' ((x # xs) @ ys) = map_option Suc (find_str ''CRC'' (xs @ ys))"
    by (simp only: append_Cons find_str.simps if_False)
  also have "\<dots> = map_option Suc (map_option (\<lambda>n. length xs + n) (find_str ''CRC'' ys))"
    by (simp only: Cons.IH [OF later last])
  also have "\<dots> = map_option (\<lambda>n. length (x # xs) + n) (find_str ''CRC'' ys)"
    by (simp add: option.map_comp comp_def)
  finally show ?case .
qed

lemma strip_crc_body:
  assumes "find_str ''CRC'' body = None" and "body = [] \<or> last body = CHR 0x0A"
    and "mark = [] \<or> prefix ''CRC'' mark"
  shows "\<exists>m. strip_crc (body @ leftover @ mark) = body @ take m leftover"
proof (cases "find_str ''CRC'' (leftover @ mark)")
  case None
  with assms(3) find_str_before [of "''CRC''" mark leftover] have "mark = []" by auto
  moreover from None have "strip_crc (body @ leftover @ mark) = body @ leftover @ mark"
    by (simp add: strip_crc_def find_crc_after [OF assms(1,2)])
  ultimately have "strip_crc (body @ leftover @ mark) = body @ take (length leftover) leftover"
    by simp
  then show ?thesis by blast
next
  case (Some n)
  then have cut: "strip_crc (body @ leftover @ mark) = body @ take n (leftover @ mark)"
    by (simp add: strip_crc_def find_crc_after [OF assms(1,2)])
  have "take n (leftover @ mark) = take n leftover"
  proof (cases "mark = []")
    case True
    then show ?thesis by simp
  next
    case False
    with assms(3) find_str_before [of "''CRC''" mark leftover] Some
    have "n \<le> length leftover" by auto
    then show ?thesis by simp
  qed
  with cut show ?thesis by auto
qed

lemma lines_text_last: "lines_text (l # ls) \<noteq> [] \<and> last (lines_text (l # ls)) = CHR 0x0A"
proof (induction ls arbitrary: l)
  case Nil
  show ?case by (simp add: lines_text_def crlf_def)
next
  case (Cons a ls)
  have "lines_text (l # a # ls) = (l @ crlf) @ lines_text (a # ls)"
    by (simp add: lines_text_def)
  with Cons [of a] show ?case by simp
qed

lemma join_rows_commas:
  "rws \<noteq> [] \<Longrightarrow> concat (map (\<lambda>r. r @ '','') rws) = join_rows rws @ '',''"
  by (induction rws rule: join_rows.induct) simp_all

lemma close_json_rows:
  assumes \<open>hjson st = ''"history": ['' @ concat (map (\<lambda>r. r @ '','') rws)\<close>
  shows \<open>close_json st = ''{'' @ gjson st @ ajson st @ ''"history": ['' @ join_rows rws @ '']}''\<close>
proof (cases "rws = []")
  case True
  with assms show ?thesis by (simp add: close_json_def)
next
  case False
  from join_rows_commas [OF False] assms
  have h: \<open>hjson st = (''"history": ['' @ join_rows rws) @ '',''\<close> by simp
  have l: "last (hjson st) = CHR '',''" by (simp add: h)
  have b: \<open>butlast (hjson st) = ''"history": ['' @ join_rows rws\<close>
    unfolding h by (simp only: butlast_snoc flip: append_Cons append_Nil)
  show ?thesis
    by (simp add: close_json_def Let_def l b)
qed


lemma conversion_ok_parses:
  assumes "CHR 0x00 \<notin> set s" and "snd (strtof s) \<le> length s"
  shows "conversion_ok strtof s \<longleftrightarrow> parses_as_number strtof s"
proof (cases "snd (strtof s) < length s")
  case True
  then have "c_str s ! snd (strtof s) = s ! snd (strtof s)"
    by (simp add: c_str_def nth_append)
  moreover from True assms(1) have "s ! snd (strtof s) \<noteq> CHR 0x00"
    by (metis nth_mem)
  ultimately show ?thesis
    using True by (simp add: conversion_ok_def parses_as_number_def)
next
  case False
  with assms(2) have "snd (strtof s) = length s" by simp
  then show ?thesis
    by (simp add: conversion_ok_def parses_as_number_def c_str_def)
qed

lemma decode_report_lines:
  assumes "list_all (\<lambda>l. CHR 0x0D \<notin> set l) (name # rest)"
    and "find_str ''CRC'' (lines_text (name # rest)) = None"
    and "CHR 0x0D \<notin> set leftover"
  shows "\<exists>st. decode_lines nfckey
               (strip_crc (lines_text (name # rest) @ leftover
                             @ (if marked then ''CRC'' @ junk else [])))
               initial_state = st \<and>
             close_json st = report_json nfckey name rest \<and>
             vol_value st = report_vol rest"
proof -
  let ?body = "lines_text (name # rest)"
  let ?mark = "if marked then ''CRC'' @ junk else []"
  let ?run = "\<lambda>st l. process_line nfckey l st"
  have mark: "?mark = [] \<or> prefix ''CRC'' ?mark" by simp
  from lines_text_last [of name rest] have body: "?body = [] \<or> last ?body = CHR 0x0A" by simp
  from strip_crc_body [OF assms(2) body mark, of leftover] obtain m where
    cut: "strip_crc (?body @ leftover @ ?mark) = ?body @ take m leftover" by blast
  have "CHR 0x0D \<notin> set (take m leftover)"
    using assms(3) by (meson in_set_takeD)
  then have stop: "find_str crlf (take m leftover) = None" by (rule find_crlf_none)
  let ?first = "process_line nfckey name initial_state"
  let ?st = "foldl ?run ?first rest"
  have decoded: "decode_lines nfckey (?body @ take m leftover) initial_state = ?st"
    by (simp add: decode_lines_lines [OF assms(1)] decode_lines_end [OF stop])
  have first: "\<not> is_first_line ?first" \<open>gjson ?first = ''"Name": "'' @ name @ ''",''\<close>
    "ajson ?first = []" \<open>hjson ?first = ''"history": [''\<close> "vol_value ?first = []"
    by (simp_all add: process_line_def initial_state_def)
  note parts = foldl_process_line [OF first(1), of nfckey rest]
  have h: \<open>hjson ?st = ''"history": [''
               @ concat (map (\<lambda>r. r @ '','') (map history_row (filter is_history rest)))\<close>
    by (simp only: parts(4) first(4))
  have "close_json ?st = report_json nfckey name rest"
    unfolding close_json_rows [OF h] report_json_def
    by (simp only: parts(2,3) first(2,3) append_Nil append_assoc)
  moreover have "vol_value ?st = report_vol rest"
    by (simp add: parts(5) first(5) report_vol_def split: list.splits)
  ultimately show ?thesis
    using cut decoded by simp
qed

lemmas report_defs = lines_text_def report_json_def report_vol_def general_entry_def
  field_entry_def history_row_def is_history_def is_field_def is_vol_def is_serial_def
  is_battery_def has_delimiter_def date_shaped_def line_key_def line_value_def
  parses_as_number_def

text \<open>
  C7 (as stated, refuted). The claim says that no numeric volume is published when
  the \<open>Vol\<close> value does not parse as a floating-point number. The lambda cuts the value
  at the first occurrence of the unit, wherever it stands, and converts what is in front
  of it: for the value \<open>5 m^3 est\<close> (the unit written as in the report), which has no
  trailing unit suffix and is not a number, it publishes 5. The test of the conversion
  reads the value as a C string, so for the value \<open>12\<close>, NUL, \<open>ab\<close> it publishes 12.
\<close>

theorem C7_volume_published_counterexample:
  "vol_value (decode_lines NFC_FORUM_TYPE_2 (strip_crc unit_cut_report) initial_state)
     = ''5'' @ unit_suffix @ '' est'' \<and>
   strip_trailing_unit (''5'' @ unit_suffix @ '' est'') = ''5'' @ unit_suffix @ '' est'' \<and>
   \<not> parses_as_number read_decimal (''5'' @ unit_suffix @ '' est'') \<and>
   water_volume (on_tag read_decimal NFC_FORUM_TYPE_2 unit_cut_report) = Some (Decimal 5 0) \<and>
   vol_value (decode_lines NFC_FORUM_TYPE_2 (strip_crc nul_report) initial_state)
     = ''12'' @ [CHR 0x00] @ ''ab'' \<and>
   strip_trailing_unit (''12'' @ [CHR 0x00] @ ''ab'') = ''12'' @ [CHR 0x00] @ ''ab'' \<and>
   \<not> parses_as_number read_decimal (''12'' @ [CHR 0x00] @ ''ab'') \<and>
   water_volume (on_tag read_decimal NFC_FORUM_TYPE_2 nul_report) = Some (Decimal 12 0)"
  by (simp add: unit_cut_report_def nul_report_def strip_trailing_unit_def on_tag_def
      strip_crc_def vol_numeric_def conversion_ok_def c_str_def process_line_def trim_def
      blank_def field_key_def initial_state_def crlf_def unit_suffix_def Let_def
      decode_lines.simps read_decimal_def is_digit_def parses_as_number_def)

text \<open>
  C7 (amended). For every payload that is a name line and further lines, each ended
  by CR LF, none holding a CR and none of them reaching the marker \<open>CRC\<close>, followed by
  text without a CR and then, possibly, by the marker and anything after it: the lambda
  publishes the JSON string of the report, with the name and the entry of every
  recognized line; the text after the last CR LF and everything from the marker on
  contribute nothing. The volume is published exactly when the value of the last \<open>Vol\<close>
  line is not empty and, cut at the first occurrence of the unit, passes the test of the
  conversion. When that cut value holds no NUL byte and does not parse as a number in all
  its length (such as \<open>N/A\<close>), no volume is published.
\<close>

theorem C7_report_lines_published:
  assumes "list_all (\<lambda>l. CHR 0x0D \<notin> set l) (name # rest)"
    and "find_str ''CRC'' (lines_text (name # rest)) = None"
    and "CHR 0x0D \<notin> set leftover"
  shows "water_meter_json
           (on_tag strtof nfckey
              (lines_text (name # rest) @ leftover @ (if marked then ''CRC'' @ junk else [])))
           = Some (report_json nfckey name rest) \<and>
         water_volume
           (on_tag strtof nfckey
              (lines_text (name # rest) @ leftover @ (if marked then ''CRC'' @ junk else [])))
           = (if report_vol rest \<noteq> [] \<and> conversion_ok strtof (vol_numeric (report_vol rest))
              then Some (fst (strtof (vol_numeric (report_vol rest)))) else None) \<and>
         (CHR 0x00 \<notin> set (vol_numeric (report_vol rest)) \<and>
          snd (strtof (vol_numeric (report_vol rest))) \<le> length (vol_numeric (report_vol rest)) \<and>
          \<not> parses_as_number strtof (vol_numeric (report_vol rest)) \<longrightarrow>
          water_volume
            (on_tag strtof nfckey
               (lines_text (name # rest) @ leftover @ (if marked then ''CRC'' @ junk else [])))
            = None)"
proof -
  let ?payload = "lines_text (name # rest) @ leftover @ (if marked then ''CRC'' @ junk else [])"
  from lines_text_last [of name rest] have ne: "?payload \<noteq> []" by simp
  from decode_report_lines [OF assms, of nfckey marked junk]
  have json: "close_json (decode_lines nfckey (strip_crc ?payload) initial_state)
                = report_json nfckey name rest"
    and vol: "vol_value (decode_lines nfckey (strip_crc ?payload) initial_state) = report_vol rest"
    by simp_all
  have published: "water_meter_json (on_tag strtof nfckey ?payload)
                     = Some (report_json nfckey name rest)"
    using ne json by (simp add: on_tag_def Let_def)
  have volume: "water_volume (on_tag strtof nfckey ?payload)
           = (if report_vol rest \<noteq> [] \<and> conversion_ok strtof (vol_numeric (report_vol rest))
              then Some (fst (strtof (vol_numeric (report_vol rest)))) else None)"
    using ne vol by (simp add: on_tag_def Let_def)
  have "water_volume (on_tag strtof nfckey ?payload) = None"
    if "CHR 0x00 \<notin> set (vol_numeric (report_vol rest)) \<and>
        snd (strtof (vol_numeric (report_vol rest))) \<le> length (vol_numeric (report_vol rest)) \<and>
        \<not> parses_as_number strtof (vol_numeric (report_vol rest))"
    using that volume conversion_ok_parses [of "vol_numeric (report_vol rest)" strtof] by simp
  with published volume show ?thesis by blast
qed

theorem C7_report_lines_published_witness:
  \<open>list_all (\<lambda>l. CHR 0x0D \<notin> set l)
     [''DeviceX'', ''S/N: 12345ABC'', ''Vol: N/A'', ''Battery: 87%'', ''2024-01-01: 100.000''] \<and>
   find_str ''CRC''
     (lines_text [''DeviceX'', ''S/N: 12345ABC'', ''Vol: N/A'', ''Battery: 87%'',
                  ''2024-01-01: 100.000'']) = None \<and>
   CHR 0x0D \<notin> set ''tail'' \<and>
   CHR 0x00 \<notin> set (vol_numeric ''N/A'') \<and>
   snd (read_decimal (vol_numeric ''N/A'')) \<le> length (vol_numeric ''N/A'') \<and>
   \<not> parses_as_number read_decimal (vol_numeric ''N/A'') \<and>
   report_vol [''S/N: 12345ABC'', ''Vol: N/A'', ''Battery: 87%'', ''2024-01-01: 100.000''] = ''N/A'' \<and>
   water_meter_json
     (on_tag read_decimal NFC_FORUM_TYPE_2
        (lines_text [''DeviceX'', ''S/N: 12345ABC'', ''Vol: N/A'', ''Battery: 87%'',
                     ''2024-01-01: 100.000'']
           @ ''tail'' @ ''CRC'' @ ''16: AB'' @ crlf @ ''Vol: 5'' @ crlf))
     = Some ''{"Name": "DeviceX","SN": "12345ABC","NFC_Id": "12345ABC","NFC_Typ": "NFC Forum Type 2","Battery": "87%","Vol": "N/A","history": [{"date": "2024-01-01", "volume": "100.000"}]}'' \<and>
   water_volume
     (on_tag read_decimal NFC_FORUM_TYPE_2
        (lines_text [''DeviceX'', ''S/N: 12345ABC'', ''Vol: N/A'', ''Battery: 87%'',
                     ''2024-01-01: 100.000'']
           @ ''tail'' @ ''CRC'' @ ''16: AB'' @ crlf @ ''Vol: 5'' @ crlf))
     = None\<close>
proof -
  let ?rest = "[''S/N: 12345ABC'', ''Vol: N/A'', ''Battery: 87%'', ''2024-01-01: 100.000'']"
  have h1: "list_all (\<lambda>l. CHR 0x0D \<notin> set l) (''DeviceX'' # ?rest)" by simp
  have h2: "find_str ''CRC'' (lines_text (''DeviceX'' # ?rest)) = None"
    by (simp add: lines_text_def crlf_def)
  have h3: "CHR 0x0D \<notin> set ''tail''" by simp
  have v: "report_vol ?rest = ''N/A''"
    by (simp add: report_defs trim_def blank_def field_key_def)
  have n: "vol_numeric ''N/A'' = ''N/A''"
    by (simp add: vol_numeric_def unit_suffix_def)
  have p: "\<not> parses_as_number read_decimal ''N/A''" "snd (read_decimal ''N/A'') \<le> length ''N/A''"
    by (simp_all add: parses_as_number_def read_decimal_def is_digit_def)
  have j: \<open>report_json NFC_FORUM_TYPE_2 ''DeviceX'' ?rest
     = ''{"Name": "DeviceX","SN": "12345ABC","NFC_Id": "12345ABC","NFC_Typ": "NFC Forum Type 2","Battery": "87%","Vol": "N/A","history": [{"date": "2024-01-01", "volume": "100.000"}]}''\<close>
    by (simp add: report_defs trim_def blank_def field_key_def NFC_FORUM_TYPE_2_def)
  let ?payload = "lines_text (''DeviceX'' # ?rest)
                    @ ''tail'' @ ''CRC'' @ ''16: AB'' @ crlf @ ''Vol: 5'' @ crlf"
  note published = C7_report_lines_published [OF h1 h2 h3, of read_decimal NFC_FORUM_TYPE_2 True
      "''16: AB'' @ crlf @ ''Vol: 5'' @ crlf"]
  have a: "water_meter_json (on_tag read_decimal NFC_FORUM_TYPE_2 ?payload)
             = Some (report_json NFC_FORUM_TYPE_2 ''DeviceX'' ?rest)"
    using published [THEN conjunct1] by simp
  have c: "water_volume (on_tag read_decimal NFC_FORUM_TYPE_2 ?payload) = None"
    using published [THEN conjunct2, THEN conjunct2] v n p by simp
  show ?thesis
    using h1 h2 h3 v n p a c unfolding j by simp
qed

subsection \<open>Separators in the JSON string\<close>

lemma ts_Cons:
  "trailing_separator (c # xs) \<longleftrightarrow>
     (c = CHR '','' \<and> xs \<noteq> [] \<and> closing (hd xs)) \<or> trailing_separator xs"
  by (cases xs) auto

lemma ts_append:
  "trailing_separator (xs @ ys) \<longleftrightarrow>
     trailing_separator xs \<or> trailing_separator ys \<or>
     (xs \<noteq> [] \<and> ys \<noteq> [] \<and> last xs = CHR '','' \<and> closing (hd ys))"
proof (induction xs)
  case Nil
  then show ?case by simp
next
  case (Cons a xs)
  then show ?case
    by (cases xs; cases ys) (auto simp add: ts_Cons)
qed

lemma ts_take: "trailing_separator (take n s) \<Longrightarrow> trailing_separator s"
  using ts_append [of "take n s" "drop n s"] by simp

lemma ts_drop: "trailing_separator (drop n s) \<Longrightarrow> trailing_separator s"
  using ts_append [of "take n s" "drop n s"] by simp

lemma ts_dropWhile: "trailing_separator (dropWhile P s) \<Longrightarrow> trailing_separator s"
  using ts_append [of "takeWhile P s" "dropWhile P s"] by simp

lemma ts_rev_dropWhile_rev:
  "trailing_separator (rev (dropWhile P (rev s))) \<Longrightarrow> trailing_separator s"
proof -
  have "s = rev (dropWhile P (rev s)) @ rev (takeWhile P (rev s))"
    by (metis rev_append rev_rev_ident takeWhile_dropWhile_id)
  then show "trailing_separator (rev (dropWhile P (rev s))) \<Longrightarrow> trailing_separator s"
    using ts_append [of "rev (dropWhile P (rev s))" "rev (takeWhile P (rev s))"] by simp
qed

lemma ts_trim: "trailing_separator (trim s) \<Longrightarrow> trailing_separator s"
  unfolding trim_def by (blast dest: ts_rev_dropWhile_rev ts_dropWhile)

lemma initial_state_ok: "state_ok initial_state"
  by (simp add: state_ok_def entries_def rows_def initial_state_def closing_def)

lemma entries_append_field:
  assumes "entries s" and "\<not> trailing_separator k" and "\<not> trailing_separator v"
  shows \<open>entries (s @ ''"'' @ k @ ''": "'' @ v @ ''",'')\<close>
  using assms
  by (auto simp add: entries_def ts_append ts_Cons closing_def hd_append)

lemma rows_append_row:
  assumes "rows s" and "\<not> trailing_separator k" and "\<not> trailing_separator v"
  shows \<open>rows (s @ ''{"date": "'' @ k @ ''", "volume": "'' @ v @ ''"},'')\<close>
  using assms
  by (auto simp add: rows_def ts_append ts_Cons closing_def hd_append butlast_append)

lemma process_line_ok:
  assumes "\<not> trailing_separator line" and "\<not> trailing_separator nfckey" and "state_ok st"
  shows "state_ok (process_line nfckey line st)"
proof (cases "is_first_line st")
  case True
  have \<open>entries (gjson st @ ''"'' @ ''Name'' @ ''": "'' @ line @ ''",'')\<close>
    using assms by (intro entries_append_field) (simp_all add: state_ok_def)
  with True assms(3) show ?thesis
    by (simp add: process_line_def state_ok_def)
next
  case False
  show ?thesis
  proof (cases "find_str '':'' line")
    case None
    with False assms(3) show ?thesis by (simp add: process_line_def)
  next
    case (Some delimiter)
    let ?key = "trim (take delimiter line)" and ?val = "trim (drop (delimiter + 1) line)"
    from assms(1) have k: "\<not> trailing_separator ?key"
      by (blast dest: ts_trim ts_take)
    from assms(1) have v: "\<not> trailing_separator ?val"
      by (blast dest: ts_trim ts_drop)
    from assms(3) have g: "entries (gjson st)" and a: "entries (ajson st)" and h: "rows (hjson st)"
      by (simp_all add: state_ok_def)
    have row: \<open>rows (hjson st @ ''{"date": "'' @ ?key @ ''", "volume": "'' @ ?val @ ''"},'')\<close>
      by (rule rows_append_row [OF h k v])
    have field: \<open>entries (ajson st @ ''"'' @ ?key @ ''": "'' @ ?val @ ''",'')\<close>
      by (rule entries_append_field [OF a k v])
    have bat: \<open>entries (gjson st @ ''"Battery": "'' @ ?val @ ''",'')\<close>
      using entries_append_field [OF g _ v, of "''Battery''"] by simp
    have sn1: \<open>entries (gjson st @ ''"SN": "'' @ ?val @ ''",'')\<close>
      using entries_append_field [OF g _ v, of "''SN''"] by simp
    have sn2: \<open>entries ((gjson st @ ''"SN": "'' @ ?val @ ''",'') @ ''"NFC_Id": "'' @ ?val @ ''",'')\<close>
      using entries_append_field [OF sn1 _ v, of "''NFC_Id''"] by simp
    have sn3: \<open>entries (((gjson st @ ''"SN": "'' @ ?val @ ''",'') @ ''"NFC_Id": "'' @ ?val @ ''",'')
                @ ''"NFC_Typ": "'' @ nfckey @ ''",'')\<close>
      using entries_append_field [OF sn2 _ assms(2), of "''NFC_Typ''"] by simp
    from False Some g a h row field bat sn3 show ?thesis
      by (simp add: process_line_def state_ok_def Let_def)
  qed
qed

lemma decode_lines_ok:
  "\<not> trailing_separator input \<Longrightarrow> \<not> trailing_separator nfckey \<Longrightarrow> state_ok st \<Longrightarrow>
   state_ok (decode_lines nfckey input st)"
proof (induction nfckey input st rule: decode_lines.induct)
  case (1 nfckey input st)
  show ?case
  proof (cases "find_str crlf input")
    case None
    with "1.prems" show ?thesis by (simp add: decode_lines.simps)
  next
    case (Some pos)
    from "1.prems"(1) have rest: "\<not> trailing_separator (drop (pos + 2) input)"
      and line: "\<not> trailing_separator (take pos input)"
      by (blast dest: ts_drop ts_take)+
    from process_line_ok [OF line "1.prems"(2,3)]
    have "state_ok (process_line nfckey (take pos input) st)" .
    from "1.IH" [OF Some rest "1.prems"(2) this] Some show ?thesis
      by (simp add: decode_lines.simps [of nfckey input])
  qed
qed

lemma close_json_ok:
  assumes "state_ok st"
  shows "\<not> trailing_separator (close_json st)"
  using assms
  by (auto simp add: close_json_def state_ok_def entries_def rows_def Let_def ts_append ts_Cons
      closing_def hd_append dest: ts_take simp add: butlast_conv_take)

text \<open>
  C8 (as stated, refuted). The claim says that for every payload the published JSON
  has no comma directly in front of a closing bracket or brace. The lambda copies the
  text of the payload into the JSON string without escaping it. A first line
  \<open>x","a":[1,],"b":"y\<close> closes the string of \<open>Name\<close> and the published text reads
  \<open>"a":[1,]\<close>: a separator directly in front of a closing bracket.
\<close>

theorem C8_unescaped_payload_counterexample:
  \<open>water_meter_json (on_tag read_decimal NFC_FORUM_TYPE_2 injecting_report)
     = Some ''{"Name": "x","a":[1,],"b":"y","history": []}'' \<and>
   trailing_separator ''{"Name": "x","a":[1,],"b":"y","history": []}''\<close>
  by (simp add: injecting_report_def decoder_defs decode_lines.simps closing_def)

text \<open>
  C8 (amended). For every payload in which no comma stands directly in front of a
  \<open>]\<close> or \<open>}\<close>, and a tag type string of which the same holds, the JSON string
  published has no comma directly in front of a \<open>]\<close> or \<open>}\<close>: the separators the
  lambda writes itself are never trailing ones.
\<close>

theorem C8_no_trailing_separator:
  assumes "\<not> trailing_separator input" and "\<not> trailing_separator nfckey"
    and "water_meter_json (on_tag strtof nfckey input) = Some json"
  shows "\<not> trailing_separator json"
proof -
  from assms(1) have "\<not> trailing_separator (strip_crc input)"
    by (auto simp add: strip_crc_def dest: ts_take split: option.splits)
  from decode_lines_ok [OF this assms(2) initial_state_ok]
  have "\<not> trailing_separator (close_json (decode_lines nfckey (strip_crc input) initial_state))"
    by (rule close_json_ok)
  with assms(3) show ?thesis
    by (auto simp add: on_tag_def Let_def split: if_splits)
qed

theorem C8_no_trailing_separator_witness:
  \<open>\<not> trailing_separator example_report \<and> \<not> trailing_separator NFC_FORUM_TYPE_2 \<and>
   water_meter_json (on_tag read_decimal NFC_FORUM_TYPE_2 example_report) =
     Some (''{"Name": "DeviceX","SN": "12345ABC","NFC_Id": "12345ABC","NFC_Typ": "NFC Forum Type 2","Battery": "87%","Vol": "123.456'' @ unit_suffix
                @ ''","history": [{"date": "2024-01-01", "volume": "100.000"}]}'') \<and>
   \<not> trailing_separator
       (''{"Name": "DeviceX","SN": "12345ABC","NFC_Id": "12345ABC","NFC_Typ": "NFC Forum Type 2","Battery": "87%","Vol": "123.456'' @ unit_suffix
                @ ''","history": [{"date": "2024-01-01", "volume": "100.000"}]}'')\<close>
proof -
  have input: "\<not> trailing_separator example_report"
    by (simp add: example_report_def crlf_def unit_suffix_def closing_def)
  have key: "\<not> trailing_separator NFC_FORUM_TYPE_2"
    by (simp add: NFC_FORUM_TYPE_2_def closing_def)
  have ne: "example_report \<noteq> []" by (simp add: example_report_def)
  have json: \<open>water_meter_json (on_tag read_decimal NFC_FORUM_TYPE_2 example_report) =
     Some (''{"Name": "DeviceX","SN": "12345ABC","NFC_Id": "12345ABC","NFC_Typ": "NFC Forum Type 2","Battery": "87%","Vol": "123.456'' @ unit_suffix
                @ ''","history": [{"date": "2024-01-01", "volume": "100.000"}]}'')\<close>
    using ne
    by (simp add: on_tag_def decode_example_report close_json_def Let_def NFC_FORUM_TYPE_2_def)
  from C8_no_trailing_separator [OF input key json] input key json
  show ?thesis by blast
qed

subsection \<open>The earlier locator of \<open>part_002\<close>\<close>

text \<open>
  On the window \<open>03 FF 02 10\<close> the copy \<open>part_002\<close> agrees with the component file. On
  \<open>03 FF 03 1E\<close> it does not: lacking the rule for a second TLV, it takes \<open>03 1E\<close> for
  an extended length of 798.
\<close>

lemma part_002_locator_on_the_two_windows:
  assumes "length page3 = 4" and "2 \<le> length rest"
  shows "find_mifare_ultralight_ndef_part_002 (page3 @ [0x03, 0xFF, 0x02, 0x10] @ rest)
           = Done (Some (528, 4))"
    and "find_mifare_ultralight_ndef_part_002 (page3 @ [0x03, 0xFF, 0x03, 0x1E] @ rest)
           = Done (Some (798, 4))"
  using assms
  by (simp_all add: find_mifare_ultralight_ndef_part_002_def log_page_def at_def
      MIFARE_ULTRALIGHT_PAGE_SIZE_def Let_def nth_append)

subsection \<open>Where the read target is the larger of the two\<close>

text \<open>
  As long as \<open>message_length + message_start_index - 12\<close> fits into eight bits, the
  bytes asked for are the larger of that remainder and the floor.
\<close>

lemma read_length_small:
  assumes "12 < unat ml + unat msi" and "unat ml + unat msi \<le> 267"
  shows "unat (read_length ml msi) = unat ml + unat msi - 12"
proof -
  let ?n = "unat ml + unat msi - 12"
  have eq: "uint ml + uint msi - 12 = int ?n"
    using assms(1) unfolding uint_nat by linarith
  have gt: "uint ml + uint msi > 12"
    using assms(1) unfolding uint_nat by linarith
  have "read_length ml msi = (word_of_int (int ?n) :: 8 word)"
    unfolding read_length_def using gt eq by (simp only: if_True)
  moreover have "?n < 256" using assms(2) by linarith
  then have "unat (word_of_int (int ?n) :: 8 word) = ?n"
    by (simp add: unat_of_nat)
  ultimately show ?thesis by (simp only:)
qed

lemma read_target_small:
  assumes "unat ml + unat msi \<le> 267"
  shows "unat (read_target floor ml msi) = max (tlv_remaining_length ml msi) (unat floor)"
proof -
  have rl: "unat (read_length ml msi) = tlv_remaining_length ml msi"
  proof (cases "12 < unat ml + unat msi")
    case True
    from read_length_small [OF True assms] show ?thesis
      by (simp only: tlv_remaining_length_def)
  next
    case False
    then have "\<not> uint ml + uint msi > 12" unfolding uint_nat by linarith
    then have "read_length ml msi = 0" by (simp only: read_length_def if_False)
    with False show ?thesis by (simp add: tlv_remaining_length_def)
  qed
  have "unat (ucast (read_length ml msi) :: 16 word) = unat (read_length ml msi)"
  proof -
    have "unat (read_length ml msi) < 2 ^ 16"
      using unsigned_less [of "read_length ml msi", where ?'a = nat] by simp
    then show ?thesis
      by (simp add: unsigned_ucast_eq take_bit_nat_eq_self)
  qed
  with rl show ?thesis
    by (simp add: read_target_def max_def word_le_nat_alt)
qed

subsection \<open>Runs of the whole read\<close>

lemmas tag_read_defs =
  read_mifare_ultralight_tag_def read_mifare_ultralight_bytes_def
  read_pages_loop.simps scripted_def append_pages_def MIFARE_ULTRALIGHT_READ_SIZE_def
  MIFARE_ULTRALIGHT_PAGE_SIZE_def MIFARE_ULTRALIGHT_DATA_START_PAGE_def
  is_mifare_ultralight_formatted_def find_mifare_ultralight_ndef_def log_page_def
  extra_read_length_def read_target_def read_length_def blank_pages_def
  assemble_message_def trim_to_message_def inner_tlv_scan_def use_inner_tlv_def
  analyse_record_def size_sub_def Let_def at_in at_out tag_with_ndef_def

text \<open>
  A tag with a message of five bytes: one exchange for pages 3 to 6, thirteen for the
  200 bytes that follow, and the message comes back whole.
\<close>

lemma read_mifare_ultralight_tag_short_message:
  "read_mifare_ultralight_tag
     (scripted [Response 0x00 [0, 0, 0, 0, 0x03, 0x05, 0xD1, 0x01, 0x01, 0x54, 0x41, 0xFE, 0, 0, 0, 0],
                blank_pages, blank_pages, blank_pages, blank_pages, blank_pages, blank_pages,
                blank_pages, blank_pages, blank_pages, blank_pages, blank_pages, blank_pages,
                blank_pages])
     [0x04, 0xA1] 0
   = Some (Done (tag_with_ndef [0x04, 0xA1] [0xD1, 0x01, 0x01, 0x54, 0x41]), 14)"
  by (simp add: tag_read_defs cong: at_weak_cong)

text \<open>The second read fails: the tag is returned without NDEF data.\<close>

lemma read_mifare_ultralight_tag_read_error:
  "read_mifare_ultralight_tag
     (scripted [Response 0x00 [0, 0, 0, 0, 0x03, 0x05, 0xD1, 0x01, 0x01, 0x54, 0x41, 0xFE, 0, 0, 0, 0]])
     [0x04, 0xA1] 0
   = Some (Done (tag_without_ndef [0x04, 0xA1]), 2)"
  by (simp add: tag_read_defs cong: at_weak_cong)

text \<open>
  A tag that declares 528 bytes and can supply them (the transport has eighteen more
  responses ready): the read asks for 200 bytes only, makes thirteen exchanges after
  the first, and returns 208 bytes of message.
\<close>

lemma zeros_208:
  "replicate 208 (0 :: byte) = replicate 104 0 @ replicate 104 0"
  "replicate 104 (0 :: byte) = replicate 52 0 @ replicate 52 0"
  "replicate 52 (0 :: byte) = replicate 26 0 @ replicate 26 0"
  "replicate 26 (0 :: byte) = replicate 13 0 @ replicate 13 0"
  "replicate 13 (0 :: byte) = [0, 0, 0, 0, 0, 0, 0, 0, 0, 0, 0, 0, 0]"
  by (simp_all add: eval_nat_numeral flip: replicate_add)

lemma read_mifare_ultralight_tag_long_message:
  "read_mifare_ultralight_tag
     (scripted [Response 0x00 [0, 0, 0, 0, 0x03, 0xFF, 0x02, 0x10, 0, 0, 0, 0, 0, 0, 0, 0],
                blank_pages, blank_pages, blank_pages, blank_pages, blank_pages, blank_pages,
                blank_pages, blank_pages, blank_pages, blank_pages, blank_pages, blank_pages,
                blank_pages, blank_pages, blank_pages, blank_pages, blank_pages, blank_pages])
     [0x04, 0xA1] 0
   = Some (Done (tag_with_ndef [0x04, 0xA1] (replicate 208 0)), 14)"
  by (simp add: tag_read_defs zeros_208 cong: at_weak_cong)

end
